theory Spec2Isabelle
  imports Main "HOL-Library.Word" "HOL-Library.Signed_Division"
begin

unbundle bit_operations_syntax

section \<open>The terminal video output vo_tct.c\<close>

text \<open>
  A shallow embedding of \<^verbatim>\<open>video/out/vo_tct.c\<close>.  Conventions:
  \<^item> \<^verbatim>\<open>uint8_t\<close> and \<^verbatim>\<open>unsigned char\<close> are \<open>8 word\<close>, \<^verbatim>\<open>unsigned int\<close> is
    \<open>32 word\<close>, \<^verbatim>\<open>uint64_t\<close> is \<open>64 word\<close>;
  \<^item> a C \<^verbatim>\<open>int\<close> is an \<open>int\<close>; its division is \<open>sdiv\<close>, which truncates towards
    zero as C does.  The quantities held in \<^verbatim>\<open>int\<close> variables here (channel values,
    squared distances below \<open>3 * 255\<^sup>2\<close>, terminal coordinates) stay far from the 32-bit
    limits; the conversions between \<^verbatim>\<open>int\<close> and \<^verbatim>\<open>unsigned int\<close> are written out
    where the code has them;
  \<^item> \<^verbatim>\<open>stdout\<close> is the list of bytes written to it, in order;
  \<^item> a division by zero and the read of a variable that was never assigned are the
    value \<open>None\<close>.
\<close>

subsection \<open>rgb\_to\_x256\<close>

definition v2ci :: "int \<Rightarrow> int" where
  "v2ci v = (if v < 48 then 0 else if v < 115 then 1 else (v - 35) sdiv 40)"

definition color_index :: "int \<Rightarrow> int \<Rightarrow> int \<Rightarrow> int" where
  "color_index ir ig ib = 36 * ir + 6 * ig + ib"

definition i2cv :: "int list" where
  "i2cv = [0, 0x5f, 0x87, 0xaf, 0xd7, 0xff]"

definition dist_square :: "int \<Rightarrow> int \<Rightarrow> int \<Rightarrow> int \<Rightarrow> int \<Rightarrow> int \<Rightarrow> int" where
  "dist_square A B C a b c = (A - a) * (A - a) + (B - b) * (B - b) + (C - c) * (C - c)"

text \<open>The local \<^verbatim>\<open>gray_index\<close>, from \<^verbatim>\<open>average\<close>.\<close>

definition gray_index :: "8 word \<Rightarrow> 8 word \<Rightarrow> 8 word \<Rightarrow> int" where
  "gray_index r g b =
     (let average = (uint r + uint g + uint b) sdiv 3
      in if average > 238 then 23 else (average - 3) sdiv 10)"

text \<open>The local \<^verbatim>\<open>color_err\<close>: the distance to the colour read back from \<^verbatim>\<open>i2cv\<close>.\<close>

definition color_err :: "8 word \<Rightarrow> 8 word \<Rightarrow> 8 word \<Rightarrow> int" where
  "color_err r g b =
     (let ir = v2ci (uint r); ig = v2ci (uint g); ib = v2ci (uint b);
          cr = i2cv ! nat ir; cg = i2cv ! nat ig; cb = i2cv ! nat ib
      in dist_square cr cg cb (uint r) (uint g) (uint b))"

text \<open>The local \<^verbatim>\<open>gray_err\<close>: the distance to the gray \<^verbatim>\<open>gv\<close>.\<close>

definition gray_err :: "8 word \<Rightarrow> 8 word \<Rightarrow> 8 word \<Rightarrow> int" where
  "gray_err r g b =
     (let gv = 8 + 10 * gray_index r g b
      in dist_square gv gv gv (uint r) (uint g) (uint b))"

definition rgb_to_x256 :: "8 word \<Rightarrow> 8 word \<Rightarrow> 8 word \<Rightarrow> int" where
  "rgb_to_x256 r g b =
     (let ir = v2ci (uint r); ig = v2ci (uint g); ib = v2ci (uint b)
      in if color_err r g b \<le> gray_err r g b
         then 16 + color_index ir ig ib
         else 232 + gray_index r g b)"

subsection \<open>Escape sequences and printf\<close>

definition ESC :: char where
  "ESC = CHR 0x1B"

definition NUL :: char where
  "NUL = CHR 0x00"

definition newline :: string where
  "newline = [CHR 0x0A]"

definition ESC_CLEAR_COLORS :: string where
  "ESC_CLEAR_COLORS = ESC # ''[0m''"

definition ESC_COLOR_BG :: string where
  "ESC_COLOR_BG = ESC # ''[48;2''"

definition ESC_COLOR_FG :: string where
  "ESC_COLOR_FG = ESC # ''[38;2''"

definition ESC_COLOR256_BG :: string where
  "ESC_COLOR256_BG = ESC # ''[48;5''"

definition ESC_COLOR256_FG :: string where
  "ESC_COLOR256_FG = ESC # ''[38;5''"

text \<open>The conversion \<^verbatim>\<open>%d\<close> of printf: decimal digits, a minus sign before a negative value.\<close>

definition digit_char :: "nat \<Rightarrow> char" where
  "digit_char n = ''0123456789'' ! n"

fun dec_digits :: "nat \<Rightarrow> string" where
  "dec_digits n =
     (if n < 10 then [digit_char n] else dec_digits (n div 10) @ [digit_char (n mod 10)])"

declare dec_digits.simps [simp del]

definition fmt_d :: "int \<Rightarrow> string" where
  "fmt_d i = (if i < 0 then CHR ''-'' # dec_digits (nat (- i)) else dec_digits (nat i))"

text \<open>\<^verbatim>\<open>printf(ESC_GOTOXY, row, col)\<close> with the format \<^verbatim>\<open>"\033[%d;%df"\<close>.\<close>

definition ESC_GOTOXY :: "int \<Rightarrow> int \<Rightarrow> string" where
  "ESC_GOTOXY row col = ESC # ''['' @ fmt_d row @ '';'' @ fmt_d col @ ''f''"

subsection \<open>The lookup table of preinit\<close>

record lut_item =
  str :: string
  width :: int

text \<open>
  \<^verbatim>\<open>sprintf(buff, ";%d", i)\<close>: the text and its terminating NUL overwrite the start of
  \<^verbatim>\<open>buff\<close>, the rest of \<^verbatim>\<open>buff\<close> keeps what it held; the result is the number of
  characters written, the NUL not counted.
\<close>

definition sprintf_semi_d :: "string \<Rightarrow> int \<Rightarrow> string \<times> int" where
  "sprintf_semi_d buff i =
     (let s = CHR '';'' # fmt_d i
      in (s @ [NUL] @ drop (length s + 1) buff, int (length s)))"

text \<open>
  One iteration of the loop of \<^verbatim>\<open>preinit\<close>.  \<^verbatim>\<open>buff\<close> is declared in the loop body
  and not initialised: its content on entry is the parameter \<open>buff0\<close>.
  \<^verbatim>\<open>memcpy(p->lut[i].str, buff, 4)\<close> copies the first four bytes.
\<close>

definition lut_entry :: "string \<Rightarrow> int \<Rightarrow> lut_item" where
  "lut_entry buff0 i =
     (let (buff, w) = sprintf_semi_d buff0 i
      in \<lparr>str = take 4 buff, width = w\<rparr>)"

function preinit_loop :: "(nat \<Rightarrow> string) \<Rightarrow> nat \<Rightarrow> lut_item list \<Rightarrow> lut_item list" where
  "preinit_loop stack i lut =
     (if i < 256 then preinit_loop stack (i + 1) (lut[i := lut_entry (stack i) (int i)])
      else lut)"
  by pat_completeness auto
termination
  by (relation "measure (\<lambda>(stack, i, lut). 256 - i)") auto

declare preinit_loop.simps [simp del]

text \<open>
  The table \<^verbatim>\<open>p->lut\<close> after \<^verbatim>\<open>preinit\<close>; \<open>lut0\<close> is the array \<^verbatim>\<open>lut[256]\<close> of the
  freshly allocated \<^verbatim>\<open>struct priv\<close>, \<open>stack i\<close> the content of \<^verbatim>\<open>buff\<close> when iteration
  \<open>i\<close> begins.
\<close>

definition preinit_lut :: "(nat \<Rightarrow> string) \<Rightarrow> lut_item list \<Rightarrow> lut_item list" where
  "preinit_lut stack lut0 = preinit_loop stack 0 lut0"

text \<open>\<^verbatim>\<open>fwrite(lut[c].str, lut[c].width, 1, stdout)\<close>: the first \<^verbatim>\<open>width\<close> bytes of \<^verbatim>\<open>str\<close>.\<close>

definition fwrite_lut :: "lut_item list \<Rightarrow> 8 word \<Rightarrow> string" where
  "fwrite_lut lut c = take (nat (width (lut ! unat c))) (str (lut ! unat c))"

text \<open>The branch taken when \<^verbatim>\<open>_WIN32\<close> is not defined.\<close>

definition print_seq3 :: "lut_item list \<Rightarrow> string \<Rightarrow> 8 word \<Rightarrow> 8 word \<Rightarrow> 8 word \<Rightarrow> string" where
  "print_seq3 lut prefix r g b =
     prefix @ fwrite_lut lut r @ fwrite_lut lut g @ fwrite_lut lut b @ ''m''"

definition print_seq1 :: "lut_item list \<Rightarrow> string \<Rightarrow> 8 word \<Rightarrow> string" where
  "print_seq1 lut prefix c = prefix @ fwrite_lut lut c @ ''m''"

text \<open>The \<^verbatim>\<open>_WIN32\<close> branch: \<^verbatim>\<open>printf("%s;%d;%d;%dm", ...)\<close> and \<^verbatim>\<open>printf("%s;%dm", ...)\<close>.\<close>

definition printf_seq3 :: "string \<Rightarrow> 8 word \<Rightarrow> 8 word \<Rightarrow> 8 word \<Rightarrow> string" where
  "printf_seq3 prefix r g b =
     prefix @ '';'' @ fmt_d (uint r) @ '';'' @ fmt_d (uint g) @ '';'' @ fmt_d (uint b) @ ''m''"

definition printf_seq1 :: "string \<Rightarrow> 8 word \<Rightarrow> string" where
  "printf_seq1 prefix c = prefix @ '';'' @ fmt_d (uint c) @ ''m''"

subsection \<open>Block elements\<close>

datatype block_elem_name =
    LOWER_HALF
  | LEFT_HALF
  | QUADRANT_LOWER_LEFT
  | QUADRANT_LOWER_RIGHT
  | QUADRANT_UPPER_LEFT
  | QUADRANT_UPPER_RIGHT
  | QUADRANT_UPPER_RIGHT_LOWER_LEFT
  | LOWER_ONE_QUARTER
  | LOWER_THREE_QUARTERS
  | LEFT_ONE_QUARTER
  | LEFT_THREE_QUARTERS
  | LOWER_ONE_EIGHTH
  | LOWER_THREE_EIGHTHS
  | LOWER_FIVE_EIGHTHS
  | LOWER_SEVEN_EIGHTHS
  | LEFT_ONE_EIGHTH
  | LEFT_THREE_EIGHTHS
  | LEFT_FIVE_EIGHTHS
  | LEFT_SEVEN_EIGHTHS

record block_element =
  bitmap :: "64 word"
  utf8 :: string

text \<open>The table \<^verbatim>\<open>block_elements[NUM_ELEMENTS]\<close>, indexed by the enumeration.\<close>

fun block_elements :: "block_elem_name \<Rightarrow> block_element" where
  "block_elements LOWER_HALF =
     \<lparr>bitmap = 0b0000000000000000000000000000000011111111111111111111111111111111,
      utf8 = [CHR 0xE2, CHR 0x96, CHR 0x84]\<rparr>"
| "block_elements LEFT_HALF =
     \<lparr>bitmap = 0b1111000011110000111100001111000011110000111100001111000011110000,
      utf8 = [CHR 0xE2, CHR 0x96, CHR 0x8C]\<rparr>"
| "block_elements QUADRANT_LOWER_LEFT =
     \<lparr>bitmap = 0b0000000000000000000000000000000011110000111100001111000011110000,
      utf8 = [CHR 0xE2, CHR 0x96, CHR 0x96]\<rparr>"
| "block_elements QUADRANT_LOWER_RIGHT =
     \<lparr>bitmap = 0b0000000000000000000000000000000000001111000011110000111100001111,
      utf8 = [CHR 0xE2, CHR 0x96, CHR 0x97]\<rparr>"
| "block_elements QUADRANT_UPPER_LEFT =
     \<lparr>bitmap = 0b1111000011110000111100001111000000000000000000000000000000000000,
      utf8 = [CHR 0xE2, CHR 0x96, CHR 0x98]\<rparr>"
| "block_elements QUADRANT_UPPER_RIGHT =
     \<lparr>bitmap = 0b0000111100001111000011110000111100000000000000000000000000000000,
      utf8 = [CHR 0xE2, CHR 0x96, CHR 0x9D]\<rparr>"
| "block_elements QUADRANT_UPPER_RIGHT_LOWER_LEFT =
     \<lparr>bitmap = 0b0000111100001111000011110000111111110000111100001111000011110000,
      utf8 = [CHR 0xE2, CHR 0x96, CHR 0x9E]\<rparr>"
| "block_elements LOWER_ONE_QUARTER =
     \<lparr>bitmap = 0b0000000000000000000000000000000000000000000000001111111111111111,
      utf8 = [CHR 0xE2, CHR 0x96, CHR 0x82]\<rparr>"
| "block_elements LOWER_THREE_QUARTERS =
     \<lparr>bitmap = 0b0000000000000000111111111111111111111111111111111111111111111111,
      utf8 = [CHR 0xE2, CHR 0x96, CHR 0x86]\<rparr>"
| "block_elements LEFT_ONE_QUARTER =
     \<lparr>bitmap = 0b1100000011000000110000001100000011000000110000001100000011000000,
      utf8 = [CHR 0xE2, CHR 0x96, CHR 0x8E]\<rparr>"
| "block_elements LEFT_THREE_QUARTERS =
     \<lparr>bitmap = 0b1111110011111100111111001111110011111100111111001111110011111100,
      utf8 = [CHR 0xE2, CHR 0x96, CHR 0x8A]\<rparr>"
| "block_elements LOWER_ONE_EIGHTH =
     \<lparr>bitmap = 0b0000000000000000000000000000000000000000000000000000000011111111,
      utf8 = [CHR 0xE2, CHR 0x96, CHR 0x81]\<rparr>"
| "block_elements LOWER_THREE_EIGHTHS =
     \<lparr>bitmap = 0b0000000000000000000000000000000000000000111111111111111111111111,
      utf8 = [CHR 0xE2, CHR 0x96, CHR 0x83]\<rparr>"
| "block_elements LOWER_FIVE_EIGHTHS =
     \<lparr>bitmap = 0b0000000000000000000000001111111111111111111111111111111111111111,
      utf8 = [CHR 0xE2, CHR 0x96, CHR 0x85]\<rparr>"
| "block_elements LOWER_SEVEN_EIGHTHS =
     \<lparr>bitmap = 0b0000000011111111111111111111111111111111111111111111111111111111,
      utf8 = [CHR 0xE2, CHR 0x96, CHR 0x87]\<rparr>"
| "block_elements LEFT_ONE_EIGHTH =
     \<lparr>bitmap = 0b1000000010000000100000001000000010000000100000001000000010000000,
      utf8 = [CHR 0xE2, CHR 0x96, CHR 0x8F]\<rparr>"
| "block_elements LEFT_THREE_EIGHTHS =
     \<lparr>bitmap = 0b1110000011100000111000001110000011100000111000001110000011100000,
      utf8 = [CHR 0xE2, CHR 0x96, CHR 0x8D]\<rparr>"
| "block_elements LEFT_FIVE_EIGHTHS =
     \<lparr>bitmap = 0b1111100011111000111110001111100011111000111110001111100011111000,
      utf8 = [CHR 0xE2, CHR 0x96, CHR 0x8B]\<rparr>"
| "block_elements LEFT_SEVEN_EIGHTHS =
     \<lparr>bitmap = 0b1111111011111110111111101111111011111110111111101111111011111110,
      utf8 = [CHR 0xE2, CHR 0x96, CHR 0x89]\<rparr>"

text \<open>The values \<^verbatim>\<open>0 .. NUM_ELEMENTS - 1\<close> of the enumeration, in order.\<close>

definition all_elems :: "block_elem_name list" where
  "all_elems =
     [LOWER_HALF,
      LEFT_HALF,
      QUADRANT_LOWER_LEFT,
      QUADRANT_LOWER_RIGHT,
      QUADRANT_UPPER_LEFT,
      QUADRANT_UPPER_RIGHT,
      QUADRANT_UPPER_RIGHT_LOWER_LEFT,
      LOWER_ONE_QUARTER,
      LOWER_THREE_QUARTERS,
      LEFT_ONE_QUARTER,
      LEFT_THREE_QUARTERS,
      LOWER_ONE_EIGHTH,
      LOWER_THREE_EIGHTHS,
      LOWER_FIVE_EIGHTHS,
      LOWER_SEVEN_EIGHTHS,
      LEFT_ONE_EIGHTH,
      LEFT_THREE_EIGHTHS,
      LEFT_FIVE_EIGHTHS,
      LEFT_SEVEN_EIGHTHS]"

definition WINDOW_H :: nat where
  "WINDOW_H = 8"

definition WINDOW_W :: nat where
  "WINDOW_W = 8"

definition WINDOW_SZ :: nat where
  "WINDOW_SZ = WINDOW_W * WINDOW_H"

text \<open>
  \<^verbatim>\<open>is_fg(bits, i)\<close> is \<^verbatim>\<open>(bits>>(WINDOW_SZ-1-i) & 0b1)\<close>, tested for being non-zero;
  \<open>i\<close> runs over \<open>0 .. WINDOW_SZ - 1\<close>.
\<close>

definition is_fg :: "64 word \<Rightarrow> nat \<Rightarrow> bool" where
  "is_fg bits i \<longleftrightarrow> drop_bit (WINDOW_SZ - 1 - i) bits AND 1 \<noteq> 0"

definition square :: "int \<Rightarrow> int" where
  "square v = v * v"

record rgb_color =
  r :: "8 word"
  g :: "8 word"
  b :: "8 word"

text \<open>Memory is read through the pointer \<^verbatim>\<open>source\<close>: a byte for every offset from it.\<close>

definition get_rgb :: "(int \<Rightarrow> 8 word) \<Rightarrow> int \<Rightarrow> rgb_color" where
  "get_rgb source base_pixel =
     \<lparr>r = source (base_pixel + 2), g = source (base_pixel + 1), b = source base_pixel\<rparr>"

subsection \<open>best\_fg\_bg\<close>

record fg_bg_sums =
  sum_fg_r :: "32 word"
  sum_fg_g :: "32 word"
  sum_fg_b :: "32 word"
  sum_bg_r :: "32 word"
  sum_bg_g :: "32 word"
  sum_bg_b :: "32 word"
  sum_fg2_r :: "32 word"
  sum_fg2_g :: "32 word"
  sum_fg2_b :: "32 word"
  sum_bg2_r :: "32 word"
  sum_bg2_g :: "32 word"
  sum_bg2_b :: "32 word"
  num_fg :: "32 word"
  num_bg :: "32 word"

definition sums_init :: fg_bg_sums where
  "sums_init =
     \<lparr>sum_fg_r = 0,
      sum_fg_g = 0,
      sum_fg_b = 0,
      sum_bg_r = 0,
      sum_bg_g = 0,
      sum_bg_b = 0,
      sum_fg2_r = 0,
      sum_fg2_g = 0,
      sum_fg2_b = 0,
      sum_bg2_r = 0,
      sum_bg2_g = 0,
      sum_bg2_b = 0,
      num_fg = 0,
      num_bg = 0\<rparr>"

text \<open>
  The body of the loop over the window.  An \<^verbatim>\<open>unsigned char\<close> operand is promoted to
  \<^verbatim>\<open>int\<close>, so \<^verbatim>\<open>square\<close> multiplies two \<^verbatim>\<open>int\<close>s; adding to an \<^verbatim>\<open>unsigned int\<close>
  converts the \<^verbatim>\<open>int\<close> to \<^verbatim>\<open>unsigned int\<close>.
\<close>

definition sums_step :: "64 word \<Rightarrow> rgb_color list \<Rightarrow> fg_bg_sums \<Rightarrow> nat \<Rightarrow> fg_bg_sums" where
  "sums_step bits win_pixels s i =
     (if is_fg bits i
      then s\<lparr>num_fg := num_fg s + 1,
             sum_fg_r := sum_fg_r s + ucast (r (win_pixels ! i)),
             sum_fg_g := sum_fg_g s + ucast (g (win_pixels ! i)),
             sum_fg_b := sum_fg_b s + ucast (b (win_pixels ! i)),
             sum_fg2_r := sum_fg2_r s + word_of_int (square (uint (r (win_pixels ! i)))),
             sum_fg2_g := sum_fg2_g s + word_of_int (square (uint (g (win_pixels ! i)))),
             sum_fg2_b := sum_fg2_b s + word_of_int (square (uint (b (win_pixels ! i))))\<rparr>
      else s\<lparr>num_bg := num_bg s + 1,
             sum_bg_r := sum_bg_r s + ucast (r (win_pixels ! i)),
             sum_bg_g := sum_bg_g s + ucast (g (win_pixels ! i)),
             sum_bg_b := sum_bg_b s + ucast (b (win_pixels ! i)),
             sum_bg2_r := sum_bg2_r s + word_of_int (square (uint (r (win_pixels ! i)))),
             sum_bg2_g := sum_bg2_g s + word_of_int (square (uint (g (win_pixels ! i)))),
             sum_bg2_b := sum_bg2_b s + word_of_int (square (uint (b (win_pixels ! i))))\<rparr>)"

function sums_loop :: "64 word \<Rightarrow> rgb_color list \<Rightarrow> nat \<Rightarrow> fg_bg_sums \<Rightarrow> fg_bg_sums" where
  "sums_loop bits win_pixels i s =
     (if i < WINDOW_SZ then sums_loop bits win_pixels (i + 1) (sums_step bits win_pixels s i)
      else s)"
  by pat_completeness auto
termination
  by (relation "measure (\<lambda>(bits, win_pixels, i, s). WINDOW_SZ - i)") auto

declare sums_loop.simps [simp del]

text \<open>The sums and counts when the loop of \<^verbatim>\<open>best_fg_bg\<close> is left.\<close>

definition window_sums :: "block_elem_name \<Rightarrow> rgb_color list \<Rightarrow> fg_bg_sums" where
  "window_sums elem win_pixels =
     sums_loop (bitmap (block_elements elem)) win_pixels 0 sums_init"

text \<open>
  The result is the returned loss with \<^verbatim>\<open>*mean_fg\<close> and \<^verbatim>\<open>*mean_bg\<close>; \<open>None\<close> is the
  division by zero.  A quotient is stored into an \<^verbatim>\<open>unsigned char\<close>.  In
  \<^verbatim>\<open>num_fg * square(mean_fg->r)\<close> the square is an \<^verbatim>\<open>int\<close>, converted to
  \<^verbatim>\<open>unsigned int\<close> for the product.
\<close>

definition best_fg_bg ::
  "block_elem_name \<Rightarrow> rgb_color list \<Rightarrow> (32 word \<times> rgb_color \<times> rgb_color) option" where
  "best_fg_bg elem win_pixels =
     (let s = window_sums elem win_pixels
      in if num_fg s = 0 \<or> num_bg s = 0 then None
         else
           (let mean_fg = \<lparr>r = ucast (sum_fg_r s div num_fg s),
                           g = ucast (sum_fg_g s div num_fg s),
                           b = ucast (sum_fg_b s div num_fg s)\<rparr>;
                mean_bg = \<lparr>r = ucast (sum_bg_r s div num_bg s),
                           g = ucast (sum_bg_g s div num_bg s),
                           b = ucast (sum_bg_b s div num_bg s)\<rparr>;
                loss = 0;
                loss = loss + (sum_fg2_r s - num_fg s * word_of_int (square (uint (r mean_fg))));
                loss = loss + (sum_fg2_g s - num_fg s * word_of_int (square (uint (g mean_fg))));
                loss = loss + (sum_fg2_b s - num_fg s * word_of_int (square (uint (b mean_fg))));
                loss = loss + (sum_bg2_r s - num_bg s * word_of_int (square (uint (r mean_bg))));
                loss = loss + (sum_bg2_g s - num_bg s * word_of_int (square (uint (g mean_bg))));
                loss = loss + (sum_bg2_b s - num_bg s * word_of_int (square (uint (b mean_bg))))
            in Some (loss, mean_fg, mean_bg)))"

subsection \<open>guess\_best\_block\_element\<close>

definition INT_MAX :: int where
  "INT_MAX = 2147483647"

text \<open>
  The variables of the search.  \<^verbatim>\<open>best_elem\<close> is declared without a value: \<open>None\<close>
  until the first assignment.  \<^verbatim>\<open>best_fg\<close> and \<^verbatim>\<open>best_bg\<close> point to the caller's
  variables, which keep their content until assigned.
\<close>

record search_state =
  best_loss :: int
  best_elem :: "block_elem_name option"
  best_fg :: rgb_color
  best_bg :: rgb_color

text \<open>
  In \<^verbatim>\<open>loss < best_loss\<close> the \<^verbatim>\<open>int\<close> is converted to \<^verbatim>\<open>unsigned int\<close>, that is taken
  modulo \<open>2\<^sup>3\<^sup>2\<close>; the assignment \<^verbatim>\<open>best_loss = loss\<close> converts back, read as two's
  complement.
\<close>

fun search_loop ::
  "rgb_color list \<Rightarrow> block_elem_name list \<Rightarrow> search_state \<Rightarrow> search_state option" where
  "search_loop win_pixels [] st = Some st"
| "search_loop win_pixels (elem # elems) st =
     (case best_fg_bg elem win_pixels of
        None \<Rightarrow> None
      | Some (loss, fg, bg) \<Rightarrow>
          search_loop win_pixels elems
            (if uint loss < best_loss st mod 2 ^ 32
             then \<lparr>best_loss = sint loss, best_elem = Some elem, best_fg = fg, best_bg = bg\<rparr>
             else st))"

text \<open>
  The result is the returned string with \<^verbatim>\<open>*best_fg\<close> and \<^verbatim>\<open>*best_bg\<close>; \<open>fg0\<close> and
  \<open>bg0\<close> are what the caller's variables held.  Indexing the table with a
  \<^verbatim>\<open>best_elem\<close> that was never assigned is \<open>None\<close>.
\<close>

definition guess_best_block_element ::
  "rgb_color list \<Rightarrow> rgb_color \<Rightarrow> rgb_color \<Rightarrow> (string \<times> rgb_color \<times> rgb_color) option" where
  "guess_best_block_element win_pixels fg0 bg0 =
     (case search_loop win_pixels all_elems
             \<lparr>best_loss = INT_MAX, best_elem = None, best_fg = fg0, best_bg = bg0\<rparr> of
        None \<Rightarrow> None
      | Some st \<Rightarrow>
          (case best_elem st of
             None \<Rightarrow> None
           | Some elem \<Rightarrow> Some (utf8 (block_elements elem), best_fg st, best_bg st)))"

subsection \<open>write\_plain\<close>






subsection \<open>write\_half\_blocks\<close>

function half_cols ::
  "(int \<Rightarrow> 8 word) \<Rightarrow> bool \<Rightarrow> lut_item list \<Rightarrow> int \<Rightarrow> int \<Rightarrow> int \<Rightarrow> int \<Rightarrow> string \<Rightarrow> string" where
  "half_cols source term256 lut swidth x row_up row_down out =
     (if x < swidth
      then
        (let b_up = source row_up; g_up = source (row_up + 1); r_up = source (row_up + 2);
             b_down = source row_down; g_down = source (row_down + 1);
             r_down = source (row_down + 2);
             out = out @ (if term256
                          then print_seq1 lut ESC_COLOR256_BG
                                 (word_of_int (rgb_to_x256 r_up g_up b_up))
                               @ print_seq1 lut ESC_COLOR256_FG
                                   (word_of_int (rgb_to_x256 r_down g_down b_down))
                          else print_seq3 lut ESC_COLOR_BG r_up g_up b_up
                               @ print_seq3 lut ESC_COLOR_FG r_down g_down b_down);
             out = out @ [CHR 0xE2, CHR 0x96, CHR 0x84]
         in half_cols source term256 lut swidth (x + 1) (row_up + 3) (row_down + 3) out)
      else out)"
  by pat_completeness auto
termination
  by (relation "measure (\<lambda>(source, term256, lut, swidth, x, row_up, row_down, out).
                  nat (swidth - x))") auto

declare half_cols.simps [simp del]

function half_rows ::
  "(int \<Rightarrow> 8 word) \<Rightarrow> int \<Rightarrow> bool \<Rightarrow> lut_item list \<Rightarrow> int \<Rightarrow> int \<Rightarrow> int \<Rightarrow> int \<Rightarrow> int
     \<Rightarrow> string \<Rightarrow> string" where
  "half_rows source source_stride term256 lut swidth sheight tx ty y out =
     (if y < sheight * 2
      then
        (let row_up = y * source_stride;
             row_down = (y + 1) * source_stride;
             out = out @ ESC_GOTOXY (ty + y sdiv 2) tx;
             out = half_cols source term256 lut swidth 0 row_up row_down out;
             out = out @ ESC_CLEAR_COLORS
         in half_rows source source_stride term256 lut swidth sheight tx ty (y + 2) out)
      else out)"
  by pat_completeness auto
termination
  by (relation "measure (\<lambda>(source, source_stride, term256, lut, swidth, sheight, tx, ty, y, out).
                  nat (sheight * 2 - y))") auto

declare half_rows.simps [simp del]

definition write_half_blocks ::
  "int \<Rightarrow> int \<Rightarrow> int \<Rightarrow> int \<Rightarrow> (int \<Rightarrow> 8 word) \<Rightarrow> int \<Rightarrow> bool \<Rightarrow> lut_item list \<Rightarrow> string" where
  "write_half_blocks dwidth dheight swidth sheight source source_stride term256 lut =
     (let tx = (dwidth - swidth) sdiv 2;
          ty = (dheight - sheight) sdiv 2;
          out = half_rows source source_stride term256 lut swidth sheight tx ty 0 []
      in out @ newline)"

subsection \<open>write\_all\_blocks\<close>











subsection \<open>The specification's vocabulary\<close>

text \<open>
  The definitions of this subsection follow the words of the specification, not the
  code; the theorems below compare the code with them.
\<close>

text \<open>
  The foreground and the background subset of a window under a glyph's coverage mask, in
  window order, and one channel of a subset as numbers.
\<close>

definition fg_pixels :: "block_elem_name \<Rightarrow> rgb_color list \<Rightarrow> rgb_color list" where
  "fg_pixels elem win =
     map (\<lambda>i. win ! i) (filter (\<lambda>i. is_fg (bitmap (block_elements elem)) i) [0..<WINDOW_SZ])"

definition bg_pixels :: "block_elem_name \<Rightarrow> rgb_color list \<Rightarrow> rgb_color list" where
  "bg_pixels elem win =
     map (\<lambda>i. win ! i) (filter (\<lambda>i. \<not> is_fg (bitmap (block_elements elem)) i) [0..<WINDOW_SZ])"

definition channel :: "(rgb_color \<Rightarrow> 8 word) \<Rightarrow> rgb_color list \<Rightarrow> nat list" where
  "channel c ps = map (\<lambda>p. unat (c p)) ps"

text \<open>The arithmetic mean with integer truncation.\<close>

definition chan_mean :: "nat list \<Rightarrow> nat" where
  "chan_mean xs = sum_list xs div length xs"

text \<open>The loss contribution \<open>\<Sum>(x\<^sub>i\<^sup>2) - n\<sqdot>mean\<^sup>2\<close>, as an integer that could be negative.\<close>

definition chan_loss :: "nat list \<Rightarrow> int" where
  "chan_loss xs = int (\<Sum>x\<leftarrow>xs. x * x) - int (length xs) * (int (chan_mean xs) * int (chan_mean xs))"

text \<open>The mean colour of a subset.\<close>

definition mean_color :: "rgb_color list \<Rightarrow> rgb_color" where
  "mean_color ps =
     \<lparr>r = of_nat (chan_mean (channel r ps)),
      g = of_nat (chan_mean (channel g ps)),
      b = of_nat (chan_mean (channel b ps))\<rparr>"

text \<open>The total loss: three channels times two subsets.\<close>

definition total_loss :: "block_elem_name \<Rightarrow> rgb_color list \<Rightarrow> int" where
  "total_loss elem win =
     chan_loss (channel r (fg_pixels elem win)) + chan_loss (channel g (fg_pixels elem win))
     + chan_loss (channel b (fg_pixels elem win))
     + chan_loss (channel r (bg_pixels elem win)) + chan_loss (channel g (bg_pixels elem win))
     + chan_loss (channel b (bg_pixels elem win))"

text \<open>The escape sequence selecting a colour as background or as foreground.\<close>

definition bg_seq :: "bool \<Rightarrow> lut_item list \<Rightarrow> rgb_color \<Rightarrow> string" where
  "bg_seq term256 lut c =
     (if term256
      then print_seq1 lut ESC_COLOR256_BG (word_of_int (rgb_to_x256 (r c) (g c) (b c)))
      else print_seq3 lut ESC_COLOR_BG (r c) (g c) (b c))"

definition fg_seq :: "bool \<Rightarrow> lut_item list \<Rightarrow> rgb_color \<Rightarrow> string" where
  "fg_seq term256 lut c =
     (if term256
      then print_seq1 lut ESC_COLOR256_FG (word_of_int (rgb_to_x256 (r c) (g c) (b c)))
      else print_seq3 lut ESC_COLOR_FG (r c) (g c) (b c))"

text \<open>The pixel of the source buffer in a row and a column: three bytes, B, G, R.\<close>

definition source_pixel :: "(int \<Rightarrow> 8 word) \<Rightarrow> int \<Rightarrow> nat \<Rightarrow> nat \<Rightarrow> rgb_color" where
  "source_pixel source source_stride row col =
     get_rgb source (int row * source_stride + 3 * int col)"



definition half_cell :: "(int \<Rightarrow> 8 word) \<Rightarrow> int \<Rightarrow> bool \<Rightarrow> lut_item list \<Rightarrow> nat \<Rightarrow> nat \<Rightarrow> string" where
  "half_cell source source_stride term256 lut y x =
     bg_seq term256 lut (source_pixel source source_stride (2 * y) x)
     @ fg_seq term256 lut (source_pixel source source_stride (2 * y + 1) x)
     @ utf8 (block_elements LOWER_HALF)"


text \<open>
  One output row: the cursor-positioning sequence, the cells from left to right, the
  colour reset.  \<open>row0\<close> is the row argument of the first row of the frame, \<open>col\<close> the
  column argument of every row.
\<close>

definition row_bytes :: "int \<Rightarrow> int \<Rightarrow> nat \<Rightarrow> (nat \<Rightarrow> nat \<Rightarrow> string) \<Rightarrow> nat \<Rightarrow> string" where
  "row_bytes row0 col ncols cell y =
     ESC_GOTOXY (row0 + int y) col @ concat (map (cell y) [0..<ncols]) @ ESC_CLEAR_COLORS"


text \<open>A frame with one newline, after the reset of the last row.\<close>

definition frame_newline_last :: "int \<Rightarrow> int \<Rightarrow> nat \<Rightarrow> nat \<Rightarrow> (nat \<Rightarrow> nat \<Rightarrow> string) \<Rightarrow> string" where
  "frame_newline_last row0 col nrows ncols cell =
     concat (map (row_bytes row0 col ncols cell) [0..<nrows]) @ newline"


subsection \<open>Example data\<close>

text \<open>
  A buffer of two pixels, (B=10, G=20, R=30) followed by (B=40, G=50, R=60); the table
  \<^verbatim>\<open>lut[256]\<close> of a zero-filled \<^verbatim>\<open>struct priv\<close>; the colour black.
\<close>

definition two_pixels :: "int \<Rightarrow> 8 word" where
  "two_pixels i =
     (if i = 0 then 10 else if i = 1 then 20 else if i = 2 then 30
      else if i = 3 then 40 else if i = 4 then 50 else if i = 5 then 60 else 0)"

definition zeroed_lut :: "lut_item list" where
  "zeroed_lut = replicate 256 \<lparr>str = replicate 4 NUL, width = 0\<rparr>"


section \<open>The quantizer\<close>

lemma sdiv_nonneg: "0 \<le> a \<Longrightarrow> 0 < c \<Longrightarrow> (a::int) sdiv c = a div c"
  by (simp add: signed_divide_int_def sgn_if)

lemma sdiv_small_neg: "- 10 < a \<Longrightarrow> a < 0 \<Longrightarrow> (a::int) sdiv 10 = 0"
  by (simp add: signed_divide_int_def sgn_if)

lemma uint8_range: "0 \<le> uint (w :: 8 word) \<and> uint w < 256"
  using uint_lt2p [of w] by simp

lemma v2ci_range:
  assumes "0 \<le> v" "v < 256"
  shows "0 \<le> v2ci v \<and> v2ci v \<le> 5"
proof (cases "v < 115")
  case True
  then show ?thesis by (simp add: v2ci_def)
next
  case False
  then have "v2ci v = (v - 35) div 40"
    by (simp add: v2ci_def sdiv_nonneg)
  with False assms show ?thesis by presburger
qed

lemma gray_index_range: "0 \<le> gray_index rv gv bv \<and> gray_index rv gv bv \<le> 23"
proof -
  define s where "s = uint rv + uint gv + uint bv"
  have s: "0 \<le> s" "s < 768"
    using uint8_range [of rv] uint8_range [of gv] uint8_range [of bv]
    by (simp_all add: s_def)
  define a where "a = s sdiv 3"
  have a_eq: "a = s div 3" using s by (simp add: a_def sdiv_nonneg)
  have a: "0 \<le> a" "a < 256" using s by (simp_all add: a_eq)
  have gi: "gray_index rv gv bv = (if a > 238 then 23 else (a - 3) sdiv 10)"
    by (simp add: gray_index_def a_def s_def Let_def)
  show ?thesis
  proof (cases "a > 238")
    case True
    then show ?thesis by (simp add: gi)
  next
    case hi: False
    show ?thesis
    proof (cases "a < 3")
      case True
      with a have "(a - 3) sdiv 10 = 0" by (intro sdiv_small_neg) simp_all
      with hi show ?thesis by (simp add: gi)
    next
      case False
      then have "(a - 3) sdiv 10 = (a - 3) div 10" by (simp add: sdiv_nonneg)
      with hi False a show ?thesis unfolding gi by presburger
    qed
  qed
qed

text \<open>
  Claim C7.  For every triple of channel bytes \<^verbatim>\<open>rgb_to_x256\<close> returns an index from 16
  to 255: each cube coordinate \<open>v2ci\<close> lies in 0..5, the gray index lies in 0..23, and the
  result is one of the two candidates \<open>16 + 36 ir + 6 ig + ib\<close> and \<open>232 + gray_index\<close>.
\<close>

theorem rgb_to_x256_range:
  "16 \<le> rgb_to_x256 rv gv bv \<and> rgb_to_x256 rv gv bv \<le> 255
   \<and> 0 \<le> v2ci (uint rv) \<and> v2ci (uint rv) \<le> 5
   \<and> 0 \<le> v2ci (uint gv) \<and> v2ci (uint gv) \<le> 5
   \<and> 0 \<le> v2ci (uint bv) \<and> v2ci (uint bv) \<le> 5
   \<and> 0 \<le> gray_index rv gv bv \<and> gray_index rv gv bv \<le> 23
   \<and> 16 \<le> 16 + color_index (v2ci (uint rv)) (v2ci (uint gv)) (v2ci (uint bv))
   \<and> 16 + color_index (v2ci (uint rv)) (v2ci (uint gv)) (v2ci (uint bv)) \<le> 231
   \<and> 232 \<le> 232 + gray_index rv gv bv \<and> 232 + gray_index rv gv bv \<le> 255
   \<and> (rgb_to_x256 rv gv bv
        = 16 + color_index (v2ci (uint rv)) (v2ci (uint gv)) (v2ci (uint bv))
      \<or> rgb_to_x256 rv gv bv = 232 + gray_index rv gv bv)"
proof -
  have ir: "0 \<le> v2ci (uint rv) \<and> v2ci (uint rv) \<le> 5"
    using uint8_range [of rv] by (intro v2ci_range) simp_all
  have ig: "0 \<le> v2ci (uint gv) \<and> v2ci (uint gv) \<le> 5"
    using uint8_range [of gv] by (intro v2ci_range) simp_all
  have ib: "0 \<le> v2ci (uint bv) \<and> v2ci (uint bv) \<le> 5"
    using uint8_range [of bv] by (intro v2ci_range) simp_all
  have gi: "0 \<le> gray_index rv gv bv \<and> gray_index rv gv bv \<le> 23"
    by (rule gray_index_range)
  have ci: "0 \<le> color_index (v2ci (uint rv)) (v2ci (uint gv)) (v2ci (uint bv))
            \<and> color_index (v2ci (uint rv)) (v2ci (uint gv)) (v2ci (uint bv)) \<le> 215"
    using ir ig ib by (simp add: color_index_def)
  show ?thesis using ir ig ib gi ci by (simp add: rgb_to_x256_def Let_def)
qed

text \<open>
  Claim C6, as stated, fails: at \<open>r = g = b = 118\<close> the two candidates are not at the same
  distance, and the result is not the colour-cube index.
\<close>

theorem gray118_not_a_tie:
  "color_err 118 118 118 \<noteq> gray_err 118 118 118
   \<and> rgb_to_x256 118 118 118 \<noteq> 16 + color_index (v2ci 118) (v2ci 118) (v2ci 118)"
  by (simp add: rgb_to_x256_def color_err_def gray_err_def gray_index_def v2ci_def
      color_index_def i2cv_def dist_square_def Let_def signed_divide_int_def)

text \<open>
  Claim C6, amended.  \<^verbatim>\<open>rgb_to_x256\<close> returns the colour-cube index whenever the squared
  distance of the colour-cube candidate is at most that of the grayscale candidate, so a
  tie goes to the colour cube, and the grayscale index otherwise.  The input
  \<open>r = g = b = 118\<close> is no tie: the cube candidate (135, 135, 135) is at squared distance
  867, the grayscale candidate (118, 118, 118) at distance 0, and the result is the
  grayscale index \<open>232 + 11 = 243\<close>.
\<close>

theorem ties_favor_color:
  "(color_err rv gv bv \<le> gray_err rv gv bv \<longrightarrow>
      rgb_to_x256 rv gv bv = 16 + color_index (v2ci (uint rv)) (v2ci (uint gv)) (v2ci (uint bv)))
   \<and> (gray_err rv gv bv < color_err rv gv bv \<longrightarrow>
      rgb_to_x256 rv gv bv = 232 + gray_index rv gv bv)
   \<and> color_err 118 118 118 = 867 \<and> gray_err 118 118 118 = 0
   \<and> gray_index 118 118 118 = 11
   \<and> rgb_to_x256 118 118 118 = 243"
  by (simp add: rgb_to_x256_def color_err_def gray_err_def gray_index_def v2ci_def
      color_index_def i2cv_def dist_square_def Let_def signed_divide_int_def)

theorem ties_favor_color_witness:
  "color_err 12 0 0 = 144 \<and> gray_err 12 0 0 = 144
   \<and> rgb_to_x256 12 0 0 = 16 + color_index (v2ci 12) (v2ci 0) (v2ci 0)
   \<and> rgb_to_x256 12 0 0 = 16
   \<and> color_err 255 0 0 = 0 \<and> gray_err 255 0 0 = 43377
   \<and> rgb_to_x256 255 0 0 = 16 + color_index (v2ci 255) (v2ci 0) (v2ci 0)
   \<and> rgb_to_x256 255 0 0 = 196
   \<and> gray_err 118 118 118 < color_err 118 118 118
   \<and> rgb_to_x256 118 118 118 = 232 + gray_index 118 118 118"
  using ties_favor_color [of 12 0 0] ties_favor_color [of 255 0 0]
    ties_favor_color [of 118 118 118]
  by (simp add: color_err_def gray_err_def gray_index_def v2ci_def
      color_index_def i2cv_def dist_square_def Let_def signed_divide_int_def)

section \<open>The lookup table\<close>

lemma dec_digits_lt10: "n < 10 \<Longrightarrow> dec_digits n = [digit_char n]"
  by (simp add: dec_digits.simps)

lemma dec_digits_lt100:
  "10 \<le> n \<Longrightarrow> n < 100 \<Longrightarrow> dec_digits n = [digit_char (n div 10), digit_char (n mod 10)]"
  by (subst dec_digits.simps) (simp add: dec_digits_lt10)

lemma dec_digits_lt1000:
  "100 \<le> n \<Longrightarrow> n < 1000 \<Longrightarrow>
   dec_digits n = [digit_char (n div 100), digit_char (n div 10 mod 10), digit_char (n mod 10)]"
proof -
  assume n: "100 \<le> n" "n < 1000"
  have d: "n div 10 div 10 = n div 100" by (simp add: div_mult2_eq [symmetric])
  from n have "dec_digits (n div 10) = [digit_char (n div 10 div 10), digit_char (n div 10 mod 10)]"
    by (intro dec_digits_lt100) simp_all
  with n d show ?thesis by (subst dec_digits.simps) simp
qed

lemma length_dec_digits_byte:
  "n < 256 \<Longrightarrow> length (dec_digits n) = (if n < 10 then 1 else if n < 100 then 2 else 3)"
  by (simp add: dec_digits_lt10 dec_digits_lt100 dec_digits_lt1000)

lemma preinit_loop_nth:
  "k < length lut \<Longrightarrow>
   preinit_loop stack i lut ! k =
     (if i \<le> k \<and> k < 256 then lut_entry (stack k) (int k) else lut ! k)"
proof (induction stack i lut rule: preinit_loop.induct)
  case (1 stack i lut)
  show ?case
  proof (cases "i < 256")
    case True
    have eq: "k = i" if "i \<le> k" "\<not> Suc i \<le> k" using that by simp
    from True 1 show ?thesis
      by (subst preinit_loop.simps) (auto simp: nth_list_update dest: eq)
  next
    case False
    then show ?thesis by (subst preinit_loop.simps) auto
  qed
qed

lemma preinit_lut_nth:
  "length lut0 = 256 \<Longrightarrow> k < 256 \<Longrightarrow> preinit_lut stack lut0 ! k = lut_entry (stack k) (int k)"
  by (simp add: preinit_lut_def preinit_loop_nth)

lemma lut_entry_width: "width (lut_entry buff0 i) = int (length (CHR '';'' # fmt_d i))"
  by (simp add: lut_entry_def sprintf_semi_d_def Let_def)

lemma lut_entry_text:
  "0 \<le> i \<Longrightarrow> i < 256 \<Longrightarrow>
   take (nat (width (lut_entry buff0 i))) (str (lut_entry buff0 i)) = CHR '';'' # fmt_d i"
  by (simp add: lut_entry_def sprintf_semi_d_def Let_def fmt_d_def length_dec_digits_byte)

lemma fwrite_preinit_lut:
  assumes "length lut0 = 256"
  shows "fwrite_lut (preinit_lut stack lut0) c = CHR '';'' # fmt_d (uint c)"
proof -
  have c: "unat c < 256" using unsigned_less [of c, where 'a = nat] by simp
  have "fwrite_lut (preinit_lut stack lut0) c =
        take (nat (width (lut_entry (stack (unat c)) (int (unat c)))))
             (str (lut_entry (stack (unat c)) (int (unat c))))"
    using assms c by (simp add: fwrite_lut_def preinit_lut_nth)
  also have "\<dots> = CHR '';'' # fmt_d (int (unat c))"
    using uint_lt2p [of c] by (intro lut_entry_text) simp_all
  finally show ?thesis by simp
qed

lemma print_seq3_preinit:
  "length lut0 = 256 \<Longrightarrow> print_seq3 (preinit_lut stack lut0) prefix rv gv bv = printf_seq3 prefix rv gv bv"
  by (simp add: print_seq3_def printf_seq3_def fwrite_preinit_lut)

lemma print_seq1_preinit:
  "length lut0 = 256 \<Longrightarrow> print_seq1 (preinit_lut stack lut0) prefix c = printf_seq1 prefix c"
  by (simp add: print_seq1_def printf_seq1_def fwrite_preinit_lut)

text \<open>
  Claim C9.  After \<^verbatim>\<open>preinit\<close>, whatever the table and the buffer held before, the entry
  of every byte value \<open>i\<close> holds the text \<open>;\<close> followed by the decimal digits of \<open>i\<close> in the
  first \<^verbatim>\<open>width\<close> bytes of \<^verbatim>\<open>str\<close>, and \<^verbatim>\<open>width\<close> is the length of that text: 2 below
  10, 3 from 10 to 99, 4 from 100 to 255.  So \<^verbatim>\<open>print_seq3\<close> and \<^verbatim>\<open>print_seq1\<close> write,
  through the table, the same bytes as the direct decimal formatting of printf.
\<close>

theorem preinit_lut_entries:
  assumes "length lut0 = 256" and "i < 256"
  shows "width (preinit_lut stack lut0 ! i) = int (length (CHR '';'' # fmt_d (int i)))
       \<and> take (nat (width (preinit_lut stack lut0 ! i))) (str (preinit_lut stack lut0 ! i))
           = CHR '';'' # fmt_d (int i)
       \<and> width (preinit_lut stack lut0 ! i) = (if i < 10 then 2 else if i < 100 then 3 else 4)
       \<and> print_seq3 (preinit_lut stack lut0) prefix rv gv bv = printf_seq3 prefix rv gv bv
       \<and> print_seq1 (preinit_lut stack lut0) prefix c = printf_seq1 prefix c"
proof -
  have e: "preinit_lut stack lut0 ! i = lut_entry (stack i) (int i)"
    using assms by (rule preinit_lut_nth)
  have 1: "width (preinit_lut stack lut0 ! i) = int (length (CHR '';'' # fmt_d (int i)))"
    by (simp add: e lut_entry_width)
  have 2: "take (nat (width (preinit_lut stack lut0 ! i))) (str (preinit_lut stack lut0 ! i))
           = CHR '';'' # fmt_d (int i)"
    unfolding e using assms(2) by (intro lut_entry_text) simp_all
  have 3: "width (preinit_lut stack lut0 ! i) = (if i < 10 then 2 else if i < 100 then 3 else 4)"
    using assms(2) by (simp add: 1 fmt_d_def length_dec_digits_byte)
  have 4: "print_seq3 (preinit_lut stack lut0) prefix rv gv bv = printf_seq3 prefix rv gv bv"
    using assms(1) by (rule print_seq3_preinit)
  have 5: "print_seq1 (preinit_lut stack lut0) prefix c = printf_seq1 prefix c"
    using assms(1) by (rule print_seq1_preinit)
  from 1 2 3 4 5 show ?thesis by simp
qed

theorem preinit_lut_entries_witness:
  "length (replicate 256 \<lparr>str = [], width = 0\<rparr>) = 256 \<and> (7::nat) < 256
   \<and> width (preinit_lut (\<lambda>i. ''abcdefgh'') (replicate 256 \<lparr>str = [], width = 0\<rparr>) ! 7) = 2
   \<and> take (nat (width (preinit_lut (\<lambda>i. ''abcdefgh'') (replicate 256 \<lparr>str = [], width = 0\<rparr>) ! 7)))
        (str (preinit_lut (\<lambda>i. ''abcdefgh'') (replicate 256 \<lparr>str = [], width = 0\<rparr>) ! 7)) = '';7''
   \<and> print_seq3 (preinit_lut (\<lambda>i. ''abcdefgh'') (replicate 256 \<lparr>str = [], width = 0\<rparr>))
        ESC_COLOR_BG 30 20 10 = ESC # ''[48;2;30;20;10m''"
  using preinit_lut_entries [of "replicate 256 \<lparr>str = [], width = 0\<rparr>" 7 "\<lambda>i. ''abcdefgh''"
      ESC_COLOR_BG 30 20 10 0]
  by (auto simp: fmt_d_def dec_digits_lt10 dec_digits_lt100 digit_char_def printf_seq3_def
      ESC_COLOR_BG_def)

section \<open>The block fitter\<close>

lemma is_fg_iff_bit: "is_fg bits i \<longleftrightarrow> bit bits (63 - i)"
  by (simp add: is_fg_def WINDOW_SZ_def WINDOW_W_def WINDOW_H_def and_one_eq bit_iff_odd_drop_bit odd_iff_mod_2_eq_one)

lemma sums_loop_fold:
  "sums_loop bits win i s = fold (\<lambda>i s. sums_step bits win s i) [i..<WINDOW_SZ] s"
proof (induction bits win i s rule: sums_loop.induct)
  case (1 bits win i s)
  show ?case
  proof (cases "i < WINDOW_SZ")
    case True
    with 1 show ?thesis
      by (subst sums_loop.simps) (simp add: upt_conv_Cons)
  next
    case False
    then show ?thesis by (subst sums_loop.simps) simp
  qed
qed

lemma ucast_as_of_nat: "(ucast (x :: 8 word) :: 32 word) = of_nat (unat x)"
  by simp

lemma square_as_of_nat: "(word_of_int (square (uint (x :: 8 word))) :: 32 word) = of_nat (unat x * unat x)"
  by (simp add: square_def)

lemma fold_num:
  "num_fg (fold (\<lambda>i s. sums_step bits win s i) js s)
     = num_fg s + of_nat (length (filter (\<lambda>i. is_fg bits i) js))
   \<and> num_bg (fold (\<lambda>i s. sums_step bits win s i) js s)
     = num_bg s + of_nat (length (filter (\<lambda>i. \<not> is_fg bits i) js))"
  by (induction js arbitrary: s) (simp_all add: sums_step_def)

lemma fold_sum_fg:
  "sum_fg_r (fold (\<lambda>i s. sums_step bits win s i) js s)
     = sum_fg_r s + of_nat (\<Sum>i\<leftarrow>filter (\<lambda>i. is_fg bits i) js. unat (r (win ! i)))
   \<and> sum_fg_g (fold (\<lambda>i s. sums_step bits win s i) js s)
     = sum_fg_g s + of_nat (\<Sum>i\<leftarrow>filter (\<lambda>i. is_fg bits i) js. unat (g (win ! i)))
   \<and> sum_fg_b (fold (\<lambda>i s. sums_step bits win s i) js s)
     = sum_fg_b s + of_nat (\<Sum>i\<leftarrow>filter (\<lambda>i. is_fg bits i) js. unat (b (win ! i)))"
  by (induction js arbitrary: s) (simp_all add: sums_step_def)

lemma fold_sum_bg:
  "sum_bg_r (fold (\<lambda>i s. sums_step bits win s i) js s)
     = sum_bg_r s + of_nat (\<Sum>i\<leftarrow>filter (\<lambda>i. \<not> is_fg bits i) js. unat (r (win ! i)))
   \<and> sum_bg_g (fold (\<lambda>i s. sums_step bits win s i) js s)
     = sum_bg_g s + of_nat (\<Sum>i\<leftarrow>filter (\<lambda>i. \<not> is_fg bits i) js. unat (g (win ! i)))
   \<and> sum_bg_b (fold (\<lambda>i s. sums_step bits win s i) js s)
     = sum_bg_b s + of_nat (\<Sum>i\<leftarrow>filter (\<lambda>i. \<not> is_fg bits i) js. unat (b (win ! i)))"
  by (induction js arbitrary: s) (simp_all add: sums_step_def)

lemma fold_sum_fg2:
  "sum_fg2_r (fold (\<lambda>i s. sums_step bits win s i) js s)
     = sum_fg2_r s + of_nat (\<Sum>i\<leftarrow>filter (\<lambda>i. is_fg bits i) js. unat (r (win ! i)) * unat (r (win ! i)))
   \<and> sum_fg2_g (fold (\<lambda>i s. sums_step bits win s i) js s)
     = sum_fg2_g s + of_nat (\<Sum>i\<leftarrow>filter (\<lambda>i. is_fg bits i) js. unat (g (win ! i)) * unat (g (win ! i)))
   \<and> sum_fg2_b (fold (\<lambda>i s. sums_step bits win s i) js s)
     = sum_fg2_b s + of_nat (\<Sum>i\<leftarrow>filter (\<lambda>i. is_fg bits i) js. unat (b (win ! i)) * unat (b (win ! i)))"
  by (induction js arbitrary: s) (simp_all add: sums_step_def square_def)

lemma fold_sum_bg2:
  "sum_bg2_r (fold (\<lambda>i s. sums_step bits win s i) js s)
     = sum_bg2_r s + of_nat (\<Sum>i\<leftarrow>filter (\<lambda>i. \<not> is_fg bits i) js. unat (r (win ! i)) * unat (r (win ! i)))
   \<and> sum_bg2_g (fold (\<lambda>i s. sums_step bits win s i) js s)
     = sum_bg2_g s + of_nat (\<Sum>i\<leftarrow>filter (\<lambda>i. \<not> is_fg bits i) js. unat (g (win ! i)) * unat (g (win ! i)))
   \<and> sum_bg2_b (fold (\<lambda>i s. sums_step bits win s i) js s)
     = sum_bg2_b s + of_nat (\<Sum>i\<leftarrow>filter (\<lambda>i. \<not> is_fg bits i) js. unat (b (win ! i)) * unat (b (win ! i)))"
  by (induction js arbitrary: s) (simp_all add: sums_step_def square_def)

lemma sum_list_channel:
  "sum_list (channel c (map (\<lambda>i. win ! i) js)) = (\<Sum>i\<leftarrow>js. unat (c (win ! i)))"
  by (simp add: channel_def comp_def)

lemma sum_sq_channel:
  "(\<Sum>x\<leftarrow>channel c (map (\<lambda>i. win ! i) js). x * x) = (\<Sum>i\<leftarrow>js. unat (c (win ! i)) * unat (c (win ! i)))"
  by (simp add: channel_def comp_def)

lemma window_sums_fg:
  "num_fg (window_sums elem win) = of_nat (length (fg_pixels elem win))"
  "sum_fg_r (window_sums elem win) = of_nat (sum_list (channel r (fg_pixels elem win)))"
  "sum_fg_g (window_sums elem win) = of_nat (sum_list (channel g (fg_pixels elem win)))"
  "sum_fg_b (window_sums elem win) = of_nat (sum_list (channel b (fg_pixels elem win)))"
  "sum_fg2_r (window_sums elem win) = of_nat (\<Sum>x\<leftarrow>channel r (fg_pixels elem win). x * x)"
  "sum_fg2_g (window_sums elem win) = of_nat (\<Sum>x\<leftarrow>channel g (fg_pixels elem win). x * x)"
  "sum_fg2_b (window_sums elem win) = of_nat (\<Sum>x\<leftarrow>channel b (fg_pixels elem win). x * x)"
  unfolding window_sums_def sums_loop_fold fg_pixels_def sum_list_channel sum_sq_channel
  by (simp_all add: fold_num fold_sum_fg fold_sum_fg2 sums_init_def)

lemma window_sums_bg:
  "num_bg (window_sums elem win) = of_nat (length (bg_pixels elem win))"
  "sum_bg_r (window_sums elem win) = of_nat (sum_list (channel r (bg_pixels elem win)))"
  "sum_bg_g (window_sums elem win) = of_nat (sum_list (channel g (bg_pixels elem win)))"
  "sum_bg_b (window_sums elem win) = of_nat (sum_list (channel b (bg_pixels elem win)))"
  "sum_bg2_r (window_sums elem win) = of_nat (\<Sum>x\<leftarrow>channel r (bg_pixels elem win). x * x)"
  "sum_bg2_g (window_sums elem win) = of_nat (\<Sum>x\<leftarrow>channel g (bg_pixels elem win). x * x)"
  "sum_bg2_b (window_sums elem win) = of_nat (\<Sum>x\<leftarrow>channel b (bg_pixels elem win). x * x)"
  unfolding window_sums_def sums_loop_fold bg_pixels_def sum_list_channel sum_sq_channel
  by (simp_all add: fold_num fold_sum_bg fold_sum_bg2 sums_init_def)

lemma length_fg_bg: "length (fg_pixels elem win) + length (bg_pixels elem win) = 64"
  using sum_length_filter_compl [of "\<lambda>i. is_fg (bitmap (block_elements elem)) i" "[0..<WINDOW_SZ]"]
  by (simp add: fg_pixels_def bg_pixels_def WINDOW_SZ_def WINDOW_W_def WINDOW_H_def)

lemma channel_le: "x \<in> set (channel c ps) \<Longrightarrow> x \<le> 255"
proof -
  have "unat (w :: 8 word) \<le> 255" for w
    using unsigned_less [of w, where 'a = nat] by simp
  then show "x \<in> set (channel c ps) \<Longrightarrow> x \<le> 255"
    by (auto simp: channel_def)
qed

lemma length_channel [simp]: "length (channel c ps) = length ps"
  by (simp add: channel_def)

lemma sum_list_le: "(\<And>x. x \<in> set xs \<Longrightarrow> x \<le> (k::nat)) \<Longrightarrow> sum_list xs \<le> k * length xs"
  by (induction xs) (simp_all add: add_mono)

lemma sum_sq_le: "(\<And>x. x \<in> set xs \<Longrightarrow> x \<le> (k::nat)) \<Longrightarrow> (\<Sum>x\<leftarrow>xs. x * x) \<le> k * k * length xs"
  by (induction xs) (simp_all add: add_mono mult_mono)

lemma chan_mean_le: "(\<And>x. x \<in> set xs \<Longrightarrow> x \<le> (k::nat)) \<Longrightarrow> chan_mean xs \<le> k"
proof -
  assume "\<And>x. x \<in> set xs \<Longrightarrow> x \<le> k"
  then have "sum_list xs \<le> k * length xs" by (rule sum_list_le)
  then have "sum_list xs div length xs \<le> k * length xs div length xs"
    by (rule div_le_mono)
  then show ?thesis
    by (cases "xs = []") (simp_all add: chan_mean_def)
qed

lemma sum_sq_dev:
  "(\<Sum>x\<leftarrow>xs. (int x - m) * (int x - m))
     = int (\<Sum>x\<leftarrow>xs. x * x) - 2 * m * int (sum_list xs) + int (length xs) * (m * m)"
  by (induction xs) (simp_all add: algebra_simps)

lemma chan_loss_eq:
  assumes "xs \<noteq> []"
  shows "chan_loss xs = (\<Sum>x\<leftarrow>xs. (int x - int (chan_mean xs)) * (int x - int (chan_mean xs)))
           + 2 * int (chan_mean xs) * int (sum_list xs mod length xs)"
proof -
  define m where "m = chan_mean xs"
  define n where "n = length xs"
  have S: "int (sum_list xs) = int n * int m + int (sum_list xs mod n)"
    unfolding m_def n_def chan_mean_def
    by (metis mult_div_mod_eq of_nat_add of_nat_mult)
  show ?thesis
    unfolding sum_sq_dev chan_loss_def m_def [symmetric] n_def [symmetric] S
    by (simp add: algebra_simps)
qed

lemma chan_loss_nonneg: "0 \<le> chan_loss xs"
proof (cases "xs = []")
  case True
  then show ?thesis by (simp add: chan_loss_def)
next
  case False
  have "0 \<le> (\<Sum>x\<leftarrow>xs. (int x - int (chan_mean xs)) * (int x - int (chan_mean xs)))"
    by (rule sum_list_nonneg) auto
  then show ?thesis unfolding chan_loss_eq [OF False] by simp
qed

lemma chan_loss_le: "chan_loss xs \<le> int (\<Sum>x\<leftarrow>xs. x * x)"
  by (simp add: chan_loss_def)

lemma unat_of_nat32: "n < 2 ^ 32 \<Longrightarrow> unat (of_nat n :: 32 word) = n"
  by (simp add: unat_of_nat)

lemma mean_word:
  assumes xs: "\<And>x. x \<in> set xs \<Longrightarrow> x \<le> 255" and n: "xs \<noteq> []" "length xs \<le> 64"
  shows "(ucast ((of_nat (sum_list xs) :: 32 word) div of_nat (length xs)) :: 8 word)
           = of_nat (chan_mean xs)"
    and "unat (of_nat (chan_mean xs) :: 8 word) = chan_mean xs"
proof -
  have S: "sum_list xs \<le> 255 * length xs" using xs by (rule sum_list_le)
  with n have S32: "sum_list xs < 2 ^ 32" by simp
  from n have n32: "length xs < 2 ^ 32" by simp
  have m: "chan_mean xs \<le> 255" using xs by (rule chan_mean_le)
  have "unat ((of_nat (sum_list xs) :: 32 word) div of_nat (length xs)) = chan_mean xs"
    by (simp add: unat_div unat_of_nat32 [OF S32] unat_of_nat32 [OF n32] chan_mean_def)
  then have "(of_nat (sum_list xs) :: 32 word) div of_nat (length xs) = of_nat (chan_mean xs)"
    by (simp add: word_arith_nat_div unat_of_nat32 [OF S32] unat_of_nat32 [OF n32] chan_mean_def)
  then show "(ucast ((of_nat (sum_list xs) :: 32 word) div of_nat (length xs)) :: 8 word)
           = of_nat (chan_mean xs)"
    using m by (simp add: unsigned_of_nat take_bit_nat_eq_self)
  from m show "unat (of_nat (chan_mean xs) :: 8 word) = chan_mean xs"
    by (simp add: unat_of_nat)
qed

lemma contribution_word:
  assumes xs: "\<And>x. x \<in> set xs \<Longrightarrow> x \<le> 255"
  shows "(of_nat (\<Sum>x\<leftarrow>xs. x * x) :: 32 word)
            - of_nat (length xs) * of_nat (chan_mean xs * chan_mean xs)
          = of_nat (nat (chan_loss xs))"
proof -
  have "0 \<le> chan_loss xs" by (rule chan_loss_nonneg)
  then have le: "length xs * (chan_mean xs * chan_mean xs) \<le> (\<Sum>x\<leftarrow>xs. x * x)"
    unfolding chan_loss_def by (simp flip: of_nat_mult)
  have "nat (chan_loss xs) = (\<Sum>x\<leftarrow>xs. x * x) - length xs * (chan_mean xs * chan_mean xs)"
    unfolding chan_loss_def by (simp flip: of_nat_mult add: nat_diff_distrib')
  with le show ?thesis by (simp add: of_nat_diff)
qed

lemma contribution_machine:
  assumes ps: "ps \<noteq> []" "length ps \<le> 64"
  shows "(ucast ((of_nat (sum_list (channel c ps)) :: 32 word) div of_nat (length ps)) :: 8 word)
           = of_nat (chan_mean (channel c ps))"
    and "(of_nat (\<Sum>x\<leftarrow>channel c ps. x * x) :: 32 word)
            - of_nat (length ps)
              * word_of_int (square (uint (of_nat (chan_mean (channel c ps)) :: 8 word)))
          = of_nat (nat (chan_loss (channel c ps)))"
proof -
  have le: "\<And>x. x \<in> set (channel c ps) \<Longrightarrow> x \<le> 255" by (rule channel_le)
  from ps have ne: "channel c ps \<noteq> []" "length (channel c ps) \<le> 64"
    by (simp_all add: channel_def)
  show "(ucast ((of_nat (sum_list (channel c ps)) :: 32 word) div of_nat (length ps)) :: 8 word)
           = of_nat (chan_mean (channel c ps))"
    using mean_word(1) [OF le ne] by simp
  have "(word_of_int (square (uint (of_nat (chan_mean (channel c ps)) :: 8 word))) :: 32 word)
          = of_nat (chan_mean (channel c ps) * chan_mean (channel c ps))"
    by (simp add: square_as_of_nat mean_word(2) [OF le ne])
  then show "(of_nat (\<Sum>x\<leftarrow>channel c ps. x * x) :: 32 word)
            - of_nat (length ps)
              * word_of_int (square (uint (of_nat (chan_mean (channel c ps)) :: 8 word)))
          = of_nat (nat (chan_loss (channel c ps)))"
    using contribution_word [of "channel c ps"] le by simp
qed

lemma of_nat_length_nonzero:
  "ps \<noteq> [] \<Longrightarrow> length ps \<le> 64 \<Longrightarrow> (of_nat (length ps) :: 32 word) \<noteq> 0"
proof
  assume ps: "ps \<noteq> []" "length ps \<le> 64" and z: "(of_nat (length ps) :: 32 word) = 0"
  from ps have "unat (of_nat (length ps) :: 32 word) = length ps"
    by (intro unat_of_nat32) simp
  with z ps show False by simp
qed

lemma nat_total_loss:
  "nat (total_loss elem win) =
     nat (chan_loss (channel r (fg_pixels elem win))) + nat (chan_loss (channel g (fg_pixels elem win)))
     + nat (chan_loss (channel b (fg_pixels elem win)))
     + nat (chan_loss (channel r (bg_pixels elem win))) + nat (chan_loss (channel g (bg_pixels elem win)))
     + nat (chan_loss (channel b (bg_pixels elem win)))"
  unfolding total_loss_def
  by (simp add: nat_add_distrib chan_loss_nonneg)

lemma best_fg_bg_spec:
  assumes fg: "fg_pixels elem win \<noteq> []" and bg: "bg_pixels elem win \<noteq> []"
  shows "best_fg_bg elem win =
           Some (of_nat (nat (total_loss elem win)),
                 mean_color (fg_pixels elem win), mean_color (bg_pixels elem win))"
proof -
  have lf: "length (fg_pixels elem win) \<le> 64" and lb: "length (bg_pixels elem win) \<le> 64"
    using length_fg_bg [of elem win] by simp_all
  note nz = of_nat_length_nonzero [OF fg lf] of_nat_length_nonzero [OF bg lb]
  note cf = contribution_machine [OF fg lf]
  note cb = contribution_machine [OF bg lb]
  show ?thesis
    unfolding best_fg_bg_def Let_def window_sums_fg window_sums_bg
    by (simp add: nz cf cb mean_color_def nat_total_loss)
qed

lemma total_loss_nonneg: "0 \<le> total_loss elem win"
  unfolding total_loss_def by (intro add_nonneg_nonneg chan_loss_nonneg)

lemma chan_loss_channel_le: "chan_loss (channel c ps) \<le> 65025 * int (length ps)"
proof -
  have "(\<Sum>x\<leftarrow>channel c ps. x * x) \<le> 255 * 255 * length (channel c ps)"
    by (rule sum_sq_le) (rule channel_le)
  then have "int (\<Sum>x\<leftarrow>channel c ps. x * x) \<le> 65025 * int (length ps)"
    by (simp flip: of_nat_mult)
  with chan_loss_le [of "channel c ps"] show ?thesis by simp
qed

lemma total_loss_le: "total_loss elem win \<le> 3 * 64 * (255 * 255)"
proof -
  have "int (length (fg_pixels elem win)) + int (length (bg_pixels elem win)) = 64"
    using length_fg_bg [of elem win] by simp
  then show ?thesis
    unfolding total_loss_def
    using chan_loss_channel_le [of r "fg_pixels elem win"]
      chan_loss_channel_le [of g "fg_pixels elem win"]
      chan_loss_channel_le [of b "fg_pixels elem win"]
      chan_loss_channel_le [of r "bg_pixels elem win"]
      chan_loss_channel_le [of g "bg_pixels elem win"]
      chan_loss_channel_le [of b "bg_pixels elem win"]
    by simp
qed

lemma uint_total_loss: "uint (of_nat (nat (total_loss elem win)) :: 32 word) = total_loss elem win"
proof -
  have "nat (total_loss elem win) < 2 ^ 32"
    using total_loss_le [of elem win] total_loss_nonneg [of elem win] by simp
  then have "unat (of_nat (nat (total_loss elem win)) :: 32 word) = nat (total_loss elem win)"
    by (rule unat_of_nat32)
  then show ?thesis
    using total_loss_nonneg [of elem win] by (simp add: uint_nat)
qed

lemma catalog_masks:
  "bitmap (block_elements elem) \<noteq> 0 \<and> bitmap (block_elements elem) \<noteq> - 1"
  by (cases elem) simp_all

lemma exists_fg: "bits \<noteq> 0 \<Longrightarrow> \<exists>i<64. is_fg bits i"
proof -
  assume "bits \<noteq> 0"
  have "\<exists>n<64. bit bits n"
  proof (rule ccontr)
    assume "\<not> (\<exists>n<64. bit bits n)"
    then have "bits = 0" by (intro bit_word_eqI) simp
    with \<open>bits \<noteq> 0\<close> show False by simp
  qed
  then obtain n where n: "n < 64" "bit bits n" by blast
  then have "63 - n < 64" "is_fg bits (63 - n)"
    by (simp_all add: is_fg_iff_bit)
  then show ?thesis by blast
qed

lemma exists_bg: "bits \<noteq> - 1 \<Longrightarrow> \<exists>i<64. \<not> is_fg bits i"
proof -
  assume "bits \<noteq> - 1"
  have "\<exists>n<64. \<not> bit bits n"
  proof (rule ccontr)
    assume "\<not> (\<exists>n<64. \<not> bit bits n)"
    then have "bits = - 1" by (intro bit_word_eqI) simp
    with \<open>bits \<noteq> - 1\<close> show False by simp
  qed
  then obtain n where n: "n < 64" "\<not> bit bits n" by blast
  then have "63 - n < 64" "\<not> is_fg bits (63 - n)"
    by (simp_all add: is_fg_iff_bit)
  then show ?thesis by blast
qed

lemma fg_pixels_nonempty: "fg_pixels elem win \<noteq> []"
proof -
  obtain i where "i < 64" "is_fg (bitmap (block_elements elem)) i"
    using exists_fg catalog_masks by blast
  then have "i \<in> set (filter (\<lambda>i. is_fg (bitmap (block_elements elem)) i) [0..<WINDOW_SZ])"
    by (simp add: WINDOW_SZ_def WINDOW_W_def WINDOW_H_def)
  then show ?thesis unfolding fg_pixels_def by (metis empty_iff list.map_disc_iff list.set(1))
qed

lemma bg_pixels_nonempty: "bg_pixels elem win \<noteq> []"
proof -
  obtain i where "i < 64" "\<not> is_fg (bitmap (block_elements elem)) i"
    using exists_bg catalog_masks by blast
  then have "i \<in> set (filter (\<lambda>i. \<not> is_fg (bitmap (block_elements elem)) i) [0..<WINDOW_SZ])"
    by (simp add: WINDOW_SZ_def WINDOW_W_def WINDOW_H_def)
  then show ?thesis unfolding bg_pixels_def by (metis empty_iff list.map_disc_iff list.set(1))
qed

lemma best_fg_bg_total:
  "best_fg_bg elem win =
     Some (of_nat (nat (total_loss elem win)),
           mean_color (fg_pixels elem win), mean_color (bg_pixels elem win))"
  by (rule best_fg_bg_spec [OF fg_pixels_nonempty bg_pixels_nonempty])

lemma sint_total_loss: "sint (of_nat (nat (total_loss elem win)) :: 32 word) = total_loss elem win"
proof -
  have t: "0 \<le> total_loss elem win" "total_loss elem win < 2 ^ 31"
    using total_loss_le [of elem win] total_loss_nonneg [of elem win] by simp_all
  then have "(of_nat (nat (total_loss elem win)) :: 32 word) = word_of_int (total_loss elem win)"
    by simp
  with t show ?thesis by (simp add: int_word_sint)
qed

lemma search_loop_zero: "best_loss st = 0 \<Longrightarrow> search_loop win es st = Some st"
  by (induction es) (simp_all add: best_fg_bg_total)

lemma search_loop_inv:
  assumes "best_elem st = Some e0" and "best_fg_bg e0 win = Some (l0, best_fg st, best_bg st)"
    and "e0 \<in> S" and "set es \<subseteq> S"
  shows "\<exists>st' e l. search_loop win es st = Some st' \<and> best_elem st' = Some e \<and> e \<in> S
           \<and> best_fg_bg e win = Some (l, best_fg st', best_bg st')"
  using assms
proof (induction es arbitrary: st e0 l0)
  case Nil
  then show ?case by simp
next
  case (Cons elem es)
  define st1 where "st1 =
     (if uint (of_nat (nat (total_loss elem win)) :: 32 word) < best_loss st mod 2 ^ 32
      then \<lparr>best_loss = sint (of_nat (nat (total_loss elem win)) :: 32 word), best_elem = Some elem,
             best_fg = mean_color (fg_pixels elem win), best_bg = mean_color (bg_pixels elem win)\<rparr>
      else st)"
  have step: "search_loop win (elem # es) st = search_loop win es st1"
    by (simp add: best_fg_bg_total st1_def)
  have "\<exists>e1 l1. best_elem st1 = Some e1 \<and> e1 \<in> S
           \<and> best_fg_bg e1 win = Some (l1, best_fg st1, best_bg st1)"
    using Cons.prems by (auto simp: st1_def best_fg_bg_total)
  then obtain e1 l1 where "best_elem st1 = Some e1"
    "best_fg_bg e1 win = Some (l1, best_fg st1, best_bg st1)" "e1 \<in> S" by blast
  moreover from Cons.prems have "set es \<subseteq> S" by simp
  ultimately show ?case unfolding step by (rule Cons.IH)
qed

lemma first_candidate:
  "uint (of_nat (nat (total_loss elem win)) :: 32 word) < INT_MAX mod 2 ^ 32"
  using total_loss_le [of elem win] by (simp add: uint_total_loss INT_MAX_def)

lemma guess_selects:
  "\<exists>e l fg bg. e \<in> set all_elems \<and> best_fg_bg e win = Some (l, fg, bg)
      \<and> guess_best_block_element win fg0 bg0 = Some (utf8 (block_elements e), fg, bg)"
proof -
  define st0 where "st0 = \<lparr>best_loss = INT_MAX, best_elem = None, best_fg = fg0, best_bg = bg0\<rparr>"
  define st1 where "st1 =
     \<lparr>best_loss = sint (of_nat (nat (total_loss LOWER_HALF win)) :: 32 word),
      best_elem = Some LOWER_HALF,
      best_fg = mean_color (fg_pixels LOWER_HALF win),
      best_bg = mean_color (bg_pixels LOWER_HALF win)\<rparr>"
  have ae: "all_elems = LOWER_HALF # tl all_elems" by (simp add: all_elems_def)
  have "search_loop win all_elems st0 = search_loop win (tl all_elems) st1"
    using first_candidate [of LOWER_HALF win]
    by (subst ae) (simp add: best_fg_bg_total st0_def st1_def)
  moreover have "\<exists>st' e l. search_loop win (tl all_elems) st1 = Some st' \<and> best_elem st' = Some e
      \<and> e \<in> set all_elems \<and> best_fg_bg e win = Some (l, best_fg st', best_bg st')"
  proof (rule search_loop_inv)
    show "best_elem st1 = Some LOWER_HALF" by (simp add: st1_def)
    show "best_fg_bg LOWER_HALF win =
            Some (of_nat (nat (total_loss LOWER_HALF win)), best_fg st1, best_bg st1)"
      by (simp add: st1_def best_fg_bg_total)
    show "LOWER_HALF \<in> set all_elems" by (simp add: all_elems_def)
    show "set (tl all_elems) \<subseteq> set all_elems" by (simp add: all_elems_def)
  qed
  ultimately obtain st' e l where "search_loop win all_elems st0 = Some st'"
    "best_elem st' = Some e" "e \<in> set all_elems"
    "best_fg_bg e win = Some (l, best_fg st', best_bg st')" by auto
  then show ?thesis
    unfolding guess_best_block_element_def st0_def [symmetric] by auto
qed

lemma const_channel:
  assumes "\<forall>p\<in>set ps. p = c"
  shows "channel ch ps = replicate (length ps) (unat (ch c))"
proof -
  from assms have "ps = replicate (length ps) c" by (simp add: replicate_length_same)
  then have "channel ch ps = channel ch (replicate (length ps) c)" by simp
  then show ?thesis by (simp add: channel_def)
qed

lemma chan_mean_replicate: "0 < n \<Longrightarrow> chan_mean (replicate n v) = v"
  by (simp add: chan_mean_def sum_list_replicate)

lemma chan_loss_replicate: "chan_loss (replicate n v) = 0"
proof (cases "n = 0")
  case True
  then show ?thesis by (simp add: chan_loss_def)
next
  case False
  then have m: "chan_mean (replicate n v) = v" by (simp add: chan_mean_replicate)
  have "(\<Sum>x\<leftarrow>replicate n v. x * x) = n * (v * v)"
    by (induction n) simp_all
  then show ?thesis by (simp add: chan_loss_def m)
qed

lemma mean_color_const:
  assumes "ps \<noteq> []" and "\<forall>p\<in>set ps. p = c"
  shows "mean_color ps = c"
proof -
  from assms(1) have n: "0 < length ps" by simp
  show ?thesis
    unfolding mean_color_def const_channel [OF assms(2)] chan_mean_replicate [OF n]
    by simp
qed

lemma total_loss_const:
  assumes "\<forall>p\<in>set (fg_pixels elem win). p = cf" and "\<forall>p\<in>set (bg_pixels elem win). p = cb"
  shows "total_loss elem win = 0"
  unfolding total_loss_def const_channel [OF assms(1)] const_channel [OF assms(2)]
  by (simp add: chan_loss_replicate)

lemma best_fg_bg_const:
  assumes "\<forall>p\<in>set (fg_pixels elem win). p = cf" and "\<forall>p\<in>set (bg_pixels elem win). p = cb"
  shows "best_fg_bg elem win = Some (0, cf, cb)"
  unfolding best_fg_bg_total total_loss_const [OF assms]
    mean_color_const [OF fg_pixels_nonempty assms(1)]
    mean_color_const [OF bg_pixels_nonempty assms(2)]
  by simp

lemma uniform_subsets:
  assumes "\<forall>i<WINDOW_SZ. win ! i = c"
  shows "\<forall>p\<in>set (fg_pixels elem win). p = c" and "\<forall>p\<in>set (bg_pixels elem win). p = c"
  using assms by (auto simp: fg_pixels_def bg_pixels_def)

lemma guess_uniform:
  assumes "\<forall>i<WINDOW_SZ. win ! i = c"
  shows "guess_best_block_element win fg0 bg0 = Some (utf8 (block_elements LOWER_HALF), c, c)"
proof -
  have l: "best_fg_bg LOWER_HALF win = Some (0, c, c)"
    by (rule best_fg_bg_const) (rule uniform_subsets [OF assms])+
  have ae: "all_elems = LOWER_HALF # tl all_elems" by (simp add: all_elems_def)
  have "search_loop win all_elems
          \<lparr>best_loss = INT_MAX, best_elem = None, best_fg = fg0, best_bg = bg0\<rparr>
        = search_loop win (tl all_elems)
            \<lparr>best_loss = 0, best_elem = Some LOWER_HALF, best_fg = c, best_bg = c\<rparr>"
    by (subst ae) (simp add: l INT_MAX_def)
  also have "\<dots> = Some \<lparr>best_loss = 0, best_elem = Some LOWER_HALF, best_fg = c, best_bg = c\<rparr>"
    by (rule search_loop_zero) simp
  finally show ?thesis by (simp add: guess_best_block_element_def)
qed

lemma left_half_mask:
  "i < 64 \<Longrightarrow> is_fg (bitmap (block_elements LEFT_HALF)) i \<longleftrightarrow> i mod 8 < 4"
proof -
  have "list_all (\<lambda>i. is_fg (bitmap (block_elements LEFT_HALF)) i = (i mod 8 < 4)) [0..<64]"
    by code_simp
  then show "i < 64 \<Longrightarrow> is_fg (bitmap (block_elements LEFT_HALF)) i \<longleftrightarrow> i mod 8 < 4"
    by (simp add: list_all_iff)
qed

lemma chan_loss_pos:
  assumes "x \<in> set xs" and "y \<in> set xs" and "x \<noteq> y"
  shows "0 < chan_loss xs"
proof -
  define m where "m = chan_mean xs"
  from assms(1) have ne: "xs \<noteq> []" by auto
  from assms obtain z where z: "z \<in> set xs" "z \<noteq> m" by metis
  define f where "f = (\<lambda>x. (int x - int m) * (int x - int m))"
  have "f z \<in> set (map f xs)" using z(1) by simp
  moreover have "\<And>v. v \<in> set (map f xs) \<Longrightarrow> 0 \<le> v" by (auto simp: f_def)
  ultimately have "f z \<le> sum_list (map f xs)" by (rule member_le_sum_list)
  moreover have "0 < f z"
  proof -
    from z(2) have "int z - int m \<noteq> 0" by simp
    then have "0 < (int z - int m)\<^sup>2" by simp
    then show ?thesis by (simp add: f_def power2_eq_square)
  qed
  ultimately have "0 < sum_list (map f xs)" by simp
  then show ?thesis
    unfolding chan_loss_eq [OF ne] m_def [symmetric] f_def
    by (simp add: add_pos_nonneg)
qed

lemma edge_lower_half_pos:
  assumes edge: "\<forall>i<WINDOW_SZ. win ! i = (if i mod WINDOW_W < 4 then A else B)" and "A \<noteq> B"
  shows "0 < total_loss LOWER_HALF win"
proof -
  define F where "F = fg_pixels LOWER_HALF win"
  have "win ! 32 = A" "win ! 36 = B"
    using edge by (simp_all add: WINDOW_SZ_def WINDOW_W_def WINDOW_H_def)
  moreover have "win ! 32 \<in> set F" "win ! 36 \<in> set F"
    unfolding F_def fg_pixels_def
    by (simp_all add: is_fg_iff_bit WINDOW_SZ_def WINDOW_W_def WINDOW_H_def)
  ultimately have AB: "A \<in> set F" "B \<in> set F" by simp_all
  have mem: "unat (ch A) \<in> set (channel ch F)" "unat (ch B) \<in> set (channel ch F)" for ch
    using AB by (simp_all add: channel_def)
  have pos: "0 < chan_loss (channel ch F)" if "ch A \<noteq> ch B" for ch
    using mem [of ch] that
    by (intro chan_loss_pos [of "unat (ch A)" _ "unat (ch B)"]) (simp_all add: word_unat_eq_iff)
  from \<open>A \<noteq> B\<close> have "r A \<noteq> r B \<or> g A \<noteq> g B \<or> b A \<noteq> b B"
    by (auto intro: rgb_color.equality)
  then have "0 < chan_loss (channel r F) + chan_loss (channel g F) + chan_loss (channel b F)"
    using pos [of r] pos [of g] pos [of b]
      chan_loss_nonneg [of "channel r F"] chan_loss_nonneg [of "channel g F"]
      chan_loss_nonneg [of "channel b F"]
    by auto
  then show ?thesis
    unfolding total_loss_def F_def [symmetric]
    using chan_loss_nonneg [of "channel r (bg_pixels LOWER_HALF win)"]
      chan_loss_nonneg [of "channel g (bg_pixels LOWER_HALF win)"]
      chan_loss_nonneg [of "channel b (bg_pixels LOWER_HALF win)"]
    by simp
qed

lemma edge_subsets:
  assumes edge: "\<forall>i<WINDOW_SZ. win ! i = (if i mod WINDOW_W < 4 then A else B)"
  shows "\<forall>p\<in>set (fg_pixels LEFT_HALF win). p = A" and "\<forall>p\<in>set (bg_pixels LEFT_HALF win). p = B"
  using edge
  by (auto simp: fg_pixels_def bg_pixels_def left_half_mask WINDOW_SZ_def WINDOW_W_def WINDOW_H_def
      simp del: block_elements.simps)

lemma best_fg_bg_edge:
  assumes "\<forall>i<WINDOW_SZ. win ! i = (if i mod WINDOW_W < 4 then A else B)"
  shows "best_fg_bg LEFT_HALF win = Some (0, A, B)"
  by (rule best_fg_bg_const) (rule edge_subsets [OF assms])+

lemma guess_edge:
  assumes edge: "\<forall>i<WINDOW_SZ. win ! i = (if i mod WINDOW_W < 4 then A else B)" and "A \<noteq> B"
  shows "guess_best_block_element win fg0 bg0 = Some (utf8 (block_elements LEFT_HALF), A, B)"
proof -
  define t0 where "t0 = total_loss LOWER_HALF win"
  have t0: "0 < t0" "t0 < 2 ^ 31"
    using edge_lower_half_pos [OF assms] total_loss_le [of LOWER_HALF win] by (simp_all add: t0_def)
  define st1 where "st1 =
     \<lparr>best_loss = t0, best_elem = Some LOWER_HALF,
      best_fg = mean_color (fg_pixels LOWER_HALF win),
      best_bg = mean_color (bg_pixels LOWER_HALF win)\<rparr>"
  define st2 where "st2 = \<lparr>best_loss = 0, best_elem = Some LEFT_HALF, best_fg = A, best_bg = B\<rparr>"
  have ae: "all_elems = LOWER_HALF # LEFT_HALF # tl (tl all_elems)" by (simp add: all_elems_def)
  have 1: "search_loop win (LOWER_HALF # es)
             \<lparr>best_loss = INT_MAX, best_elem = None, best_fg = fg0, best_bg = bg0\<rparr>
           = search_loop win es st1" for es
    using first_candidate [of LOWER_HALF win]
    by (simp add: best_fg_bg_total st1_def sint_total_loss t0_def)
  have "t0 mod 2 ^ 32 = t0" using t0 by simp
  then have 2: "search_loop win (LEFT_HALF # es) st1 = search_loop win es st2" for es
    using t0 by (simp add: best_fg_bg_edge [OF edge] st1_def st2_def)
  have 3: "search_loop win es st2 = Some st2" for es
    by (rule search_loop_zero) (simp add: st2_def)
  have "search_loop win all_elems
          \<lparr>best_loss = INT_MAX, best_elem = None, best_fg = fg0, best_bg = bg0\<rparr> = Some st2"
    by (subst ae) (simp only: 1 2 3)
  then show ?thesis
    by (simp add: guess_best_block_element_def st2_def)
qed

lemma unat_num_fg: "unat (num_fg (window_sums elem win)) = length (fg_pixels elem win)"
  using length_fg_bg [of elem win] by (simp add: window_sums_fg unat_of_nat32)

lemma unat_num_bg: "unat (num_bg (window_sums elem win)) = length (bg_pixels elem win)"
  using length_fg_bg [of elem win] by (simp add: window_sums_bg unat_of_nat32)

lemma all_elems_complete: "elem \<in> set all_elems"
  by (cases elem) (simp_all add: all_elems_def)

lemma no_underflow_machine:
  assumes ps: "ps \<noteq> []" "length ps \<le> 64"
  shows "of_nat (length ps)
           * word_of_int (square (uint (of_nat (chan_mean (channel c ps)) :: 8 word)))
         \<le> (of_nat (\<Sum>x\<leftarrow>channel c ps. x * x) :: 32 word)"
proof -
  define m where "m = chan_mean (channel c ps)"
  define q where "q = (\<Sum>x\<leftarrow>channel c ps. x * x)"
  have le: "\<And>x. x \<in> set (channel c ps) \<Longrightarrow> x \<le> 255" by (rule channel_le)
  from ps have ne: "channel c ps \<noteq> []" "length (channel c ps) \<le> 64"
    by (simp_all add: channel_def)
  have sq: "(word_of_int (square (uint (of_nat m :: 8 word))) :: 32 word) = of_nat (m * m)"
    unfolding m_def by (simp add: square_as_of_nat mean_word(2) [OF le ne])
  have "0 \<le> chan_loss (channel c ps)" by (rule chan_loss_nonneg)
  then have nmq: "length ps * (m * m) \<le> q"
    unfolding chan_loss_def m_def q_def by (simp flip: of_nat_mult)
  have "q \<le> 255 * 255 * length (channel c ps)"
    unfolding q_def by (rule sum_sq_le) (rule channel_le)
  with ps have q32: "q < 2 ^ 32" by simp
  with nmq have n32: "length ps * (m * m) < 2 ^ 32" by simp
  have "(of_nat (length ps * (m * m)) :: 32 word) \<le> of_nat q"
    unfolding word_le_nat_alt unat_of_nat32 [OF q32] unat_of_nat32 [OF n32] by (rule nmq)
  then show ?thesis
    unfolding m_def [symmetric] q_def [symmetric] sq by simp
qed

text \<open>
  Claim C5.  For every glyph and every 8 by 8 window \<^verbatim>\<open>best_fg_bg\<close> returns; the returned
  loss, read as an unsigned number, is the sum of six contributions, one per channel and
  subset, each being \<open>\<Sum>(x\<^sub>i\<^sup>2) - n\<sqdot>mean\<^sup>2\<close> with the truncated mean of the subset's
  channel; the returned colours are these means; each contribution is non-negative, and in
  none of the six unsigned subtractions of the code is the subtrahend larger than the
  minuend.
\<close>

theorem loss_is_sum_of_six_contributions:
  assumes "length win = WINDOW_SZ"
  shows "\<exists>loss mean_fg mean_bg.
      best_fg_bg elem win = Some (loss, mean_fg, mean_bg)
    \<and> mean_fg = mean_color (fg_pixels elem win) \<and> mean_bg = mean_color (bg_pixels elem win)
    \<and> uint loss =
        chan_loss (channel r (fg_pixels elem win)) + chan_loss (channel g (fg_pixels elem win))
        + chan_loss (channel b (fg_pixels elem win))
        + chan_loss (channel r (bg_pixels elem win)) + chan_loss (channel g (bg_pixels elem win))
        + chan_loss (channel b (bg_pixels elem win))
    \<and> 0 \<le> chan_loss (channel r (fg_pixels elem win))
    \<and> 0 \<le> chan_loss (channel g (fg_pixels elem win))
    \<and> 0 \<le> chan_loss (channel b (fg_pixels elem win))
    \<and> 0 \<le> chan_loss (channel r (bg_pixels elem win))
    \<and> 0 \<le> chan_loss (channel g (bg_pixels elem win))
    \<and> 0 \<le> chan_loss (channel b (bg_pixels elem win))
    \<and> num_fg (window_sums elem win) * word_of_int (square (uint (r mean_fg)))
        \<le> sum_fg2_r (window_sums elem win)
    \<and> num_fg (window_sums elem win) * word_of_int (square (uint (g mean_fg)))
        \<le> sum_fg2_g (window_sums elem win)
    \<and> num_fg (window_sums elem win) * word_of_int (square (uint (b mean_fg)))
        \<le> sum_fg2_b (window_sums elem win)
    \<and> num_bg (window_sums elem win) * word_of_int (square (uint (r mean_bg)))
        \<le> sum_bg2_r (window_sums elem win)
    \<and> num_bg (window_sums elem win) * word_of_int (square (uint (g mean_bg)))
        \<le> sum_bg2_g (window_sums elem win)
    \<and> num_bg (window_sums elem win) * word_of_int (square (uint (b mean_bg)))
        \<le> sum_bg2_b (window_sums elem win)"
proof -
  have lf: "length (fg_pixels elem win) \<le> 64" and lb: "length (bg_pixels elem win) \<le> 64"
    using length_fg_bg [of elem win] by simp_all
  note uf = no_underflow_machine [OF fg_pixels_nonempty lf]
  note ub = no_underflow_machine [OF bg_pixels_nonempty lb]
  have "uint (of_nat (nat (total_loss elem win)) :: 32 word) =
        chan_loss (channel r (fg_pixels elem win)) + chan_loss (channel g (fg_pixels elem win))
        + chan_loss (channel b (fg_pixels elem win))
        + chan_loss (channel r (bg_pixels elem win)) + chan_loss (channel g (bg_pixels elem win))
        + chan_loss (channel b (bg_pixels elem win))"
    unfolding uint_total_loss by (simp add: total_loss_def)
  moreover have "num_fg (window_sums elem win)
        * word_of_int (square (uint (r (mean_color (fg_pixels elem win)))))
        \<le> sum_fg2_r (window_sums elem win)"
    using uf [of r] by (simp add: window_sums_fg mean_color_def)
  moreover have "num_fg (window_sums elem win)
        * word_of_int (square (uint (g (mean_color (fg_pixels elem win)))))
        \<le> sum_fg2_g (window_sums elem win)"
    using uf [of g] by (simp add: window_sums_fg mean_color_def)
  moreover have "num_fg (window_sums elem win)
        * word_of_int (square (uint (b (mean_color (fg_pixels elem win)))))
        \<le> sum_fg2_b (window_sums elem win)"
    using uf [of b] by (simp add: window_sums_fg mean_color_def)
  moreover have "num_bg (window_sums elem win)
        * word_of_int (square (uint (r (mean_color (bg_pixels elem win)))))
        \<le> sum_bg2_r (window_sums elem win)"
    using ub [of r] by (simp add: window_sums_bg mean_color_def)
  moreover have "num_bg (window_sums elem win)
        * word_of_int (square (uint (g (mean_color (bg_pixels elem win)))))
        \<le> sum_bg2_g (window_sums elem win)"
    using ub [of g] by (simp add: window_sums_bg mean_color_def)
  moreover have "num_bg (window_sums elem win)
        * word_of_int (square (uint (b (mean_color (bg_pixels elem win)))))
        \<le> sum_bg2_b (window_sums elem win)"
    using ub [of b] by (simp add: window_sums_bg mean_color_def)
  ultimately show ?thesis
    unfolding best_fg_bg_total by (simp add: chan_loss_nonneg)
qed

text \<open>
  Claim C8.  Every entry of the catalog has a coverage mask with a set bit and an unset bit,
  so for every window the counts \<^verbatim>\<open>num_fg\<close> and \<^verbatim>\<open>num_bg\<close> are positive when the loop
  ends and \<^verbatim>\<open>best_fg_bg\<close> never divides by zero.  The catalog has 19 entries, and every
  value of the enumeration is one of them.
\<close>

theorem catalog_masks_not_degenerate:
  assumes "length win = WINDOW_SZ"
  shows "bitmap (block_elements elem) \<noteq> 0 \<and> bitmap (block_elements elem) \<noteq> - 1
    \<and> (\<exists>i<WINDOW_SZ. is_fg (bitmap (block_elements elem)) i)
    \<and> (\<exists>i<WINDOW_SZ. \<not> is_fg (bitmap (block_elements elem)) i)
    \<and> 0 < unat (num_fg (window_sums elem win)) \<and> 0 < unat (num_bg (window_sums elem win))
    \<and> best_fg_bg elem win \<noteq> None
    \<and> length all_elems = 19 \<and> elem \<in> set all_elems"
proof -
  have m: "bitmap (block_elements elem) \<noteq> 0 \<and> bitmap (block_elements elem) \<noteq> - 1"
    by (rule catalog_masks)
  have sz: "WINDOW_SZ = 64" by (simp add: WINDOW_SZ_def WINDOW_W_def WINDOW_H_def)
  have f: "\<exists>i<WINDOW_SZ. is_fg (bitmap (block_elements elem)) i"
    unfolding sz using m by (intro exists_fg) simp
  have g: "\<exists>i<WINDOW_SZ. \<not> is_fg (bitmap (block_elements elem)) i"
    unfolding sz using m by (intro exists_bg) simp
  have nf: "0 < unat (num_fg (window_sums elem win))"
    using fg_pixels_nonempty [of elem win] by (simp add: unat_num_fg)
  have nb: "0 < unat (num_bg (window_sums elem win))"
    using bg_pixels_nonempty [of elem win] by (simp add: unat_num_bg)
  have s: "best_fg_bg elem win \<noteq> None" by (simp add: best_fg_bg_total)
  have l: "length all_elems = 19" by (simp add: all_elems_def)
  from m f g nf nb s l all_elems_complete [of elem] show ?thesis by blast
qed

text \<open>
  Claim C10.  For every 8 by 8 window the loss of the first candidate is at most
  \<open>3 \<times> 64 \<times> 255\<^sup>2\<close>, which is below \<^verbatim>\<open>INT_MAX\<close>, so the first iteration assigns
  \<^verbatim>\<open>best_elem\<close>; \<^verbatim>\<open>guess_best_block_element\<close> returns, and what it returns is the glyph of
  one catalog entry together with the foreground and background colours that
  \<^verbatim>\<open>best_fg_bg\<close> computes for that entry, whatever the caller's variables held.
\<close>

theorem guess_returns_catalog_entry:
  assumes "length win = WINDOW_SZ"
  shows "(\<exists>l0 f0 b0. best_fg_bg (hd all_elems) win = Some (l0, f0, b0)
            \<and> uint l0 \<le> 3 * 64 * (255 * 255) \<and> 3 * 64 * (255 * 255) < INT_MAX
            \<and> uint l0 < INT_MAX mod 2 ^ 32)
       \<and> (\<exists>e l fg bg. e \<in> set all_elems \<and> best_fg_bg e win = Some (l, fg, bg)
            \<and> guess_best_block_element win fg0 bg0 = Some (utf8 (block_elements e), fg, bg))"
proof -
  have "uint (of_nat (nat (total_loss (hd all_elems) win)) :: 32 word) \<le> 3 * 64 * (255 * 255)"
    unfolding uint_total_loss by (rule total_loss_le)
  moreover have "3 * 64 * (255 * 255) < INT_MAX" by (simp add: INT_MAX_def)
  moreover note first_candidate [of "hd all_elems" win]
  ultimately have "\<exists>l0 f0 b0. best_fg_bg (hd all_elems) win = Some (l0, f0, b0)
            \<and> uint l0 \<le> 3 * 64 * (255 * 255) \<and> 3 * 64 * (255 * 255) < INT_MAX
            \<and> uint l0 < INT_MAX mod 2 ^ 32"
    unfolding best_fg_bg_total by blast
  with guess_selects [of win fg0 bg0] show ?thesis by blast
qed

text \<open>
  Claim C4.  For every 8 by 8 window of one colour, each of the 19 catalog glyphs has loss
  zero with both mean colours equal to that colour, and \<^verbatim>\<open>guess_best_block_element\<close>
  returns the glyph of \<^verbatim>\<open>LOWER_HALF\<close>, the first entry of the catalog: a later glyph
  replaces the running minimum only when its loss is strictly smaller.
\<close>

theorem uniform_window_first_glyph:
  assumes "length win = WINDOW_SZ" and "\<forall>i<WINDOW_SZ. win ! i = c"
  shows "(\<forall>elem. best_fg_bg elem win = Some (0, c, c))
       \<and> guess_best_block_element win fg0 bg0 = Some (utf8 (block_elements LOWER_HALF), c, c)
       \<and> hd all_elems = LOWER_HALF \<and> length all_elems = 19 \<and> (\<forall>elem. elem \<in> set all_elems)"
proof -
  have "best_fg_bg elem win = Some (0, c, c)" for elem
    by (rule best_fg_bg_const) (rule uniform_subsets [OF assms(2)])+
  moreover note guess_uniform [OF assms(2), of fg0 bg0]
  moreover have "hd all_elems = LOWER_HALF" "length all_elems = 19"
    by (simp_all add: all_elems_def)
  ultimately show ?thesis using all_elems_complete by blast
qed

text \<open>
  Claim C3.  For every 8 by 8 window whose left four columns have one colour \<open>A\<close> and whose
  right four columns have a different colour \<open>B\<close>, \<^verbatim>\<open>guess_best_block_element\<close> returns the
  glyph of \<^verbatim>\<open>LEFT_HALF\<close> (U+258C), whose coverage mask is the left four columns of every
  row, with foreground \<open>A\<close> and background \<open>B\<close>; the loss of that glyph is zero.
\<close>

theorem vertical_edge_left_half:
  assumes "length win = WINDOW_SZ"
    and "\<forall>i<WINDOW_SZ. win ! i = (if i mod WINDOW_W < 4 then A else B)"
    and "A \<noteq> B"
  shows "guess_best_block_element win fg0 bg0 = Some (utf8 (block_elements LEFT_HALF), A, B)
       \<and> best_fg_bg LEFT_HALF win = Some (0, A, B)
       \<and> (\<forall>i<WINDOW_SZ. is_fg (bitmap (block_elements LEFT_HALF)) i \<longleftrightarrow> i mod WINDOW_W < 4)
       \<and> utf8 (block_elements LEFT_HALF) = [CHR 0xE2, CHR 0x96, CHR 0x8C]"
proof -
  have "\<forall>i<WINDOW_SZ. is_fg (bitmap (block_elements LEFT_HALF)) i \<longleftrightarrow> i mod WINDOW_W < 4"
    using left_half_mask by (simp add: WINDOW_SZ_def WINDOW_W_def WINDOW_H_def del: block_elements.simps)
  with guess_edge [OF assms(2,3), of fg0 bg0] best_fg_bg_edge [OF assms(2)]
  show ?thesis by simp
qed

lemma WINDOW_SZ_64: "WINDOW_SZ = 64"
  by (simp add: WINDOW_SZ_def WINDOW_W_def WINDOW_H_def)

theorem vertical_edge_left_half_witness:
  "length (map (\<lambda>i. if i mod 8 < 4 then \<lparr>r = 200, g = 10, b = 10\<rparr> else \<lparr>r = 10, g = 10, b = 200\<rparr>)
             [0..<64]) = WINDOW_SZ
   \<and> \<lparr>r = 200, g = 10, b = 10\<rparr> \<noteq> \<lparr>r = 10, g = 10, b = 200\<rparr>
   \<and> guess_best_block_element
        (map (\<lambda>i. if i mod 8 < 4 then \<lparr>r = 200, g = 10, b = 10\<rparr> else \<lparr>r = 10, g = 10, b = 200\<rparr>)
           [0..<64])
        \<lparr>r = 0, g = 0, b = 0\<rparr> \<lparr>r = 0, g = 0, b = 0\<rparr>
      = Some ([CHR 0xE2, CHR 0x96, CHR 0x8C], \<lparr>r = 200, g = 10, b = 10\<rparr>, \<lparr>r = 10, g = 10, b = 200\<rparr>)"
  using vertical_edge_left_half
    [of "map (\<lambda>i. if i mod 8 < 4 then \<lparr>r = 200, g = 10, b = 10\<rparr> else \<lparr>r = 10, g = 10, b = 200\<rparr>)
           [0..<64]"
        "\<lparr>r = 200, g = 10, b = 10\<rparr>" "\<lparr>r = 10, g = 10, b = 200\<rparr>"
        "\<lparr>r = 0, g = 0, b = 0\<rparr>" "\<lparr>r = 0, g = 0, b = 0\<rparr>"]
  by (simp add: WINDOW_SZ_64 WINDOW_W_def)

theorem uniform_window_first_glyph_witness:
  "length (replicate 64 \<lparr>r = 1, g = 2, b = 3\<rparr>) = WINDOW_SZ
   \<and> best_fg_bg LEFT_SEVEN_EIGHTHS (replicate 64 \<lparr>r = 1, g = 2, b = 3\<rparr>)
       = Some (0, \<lparr>r = 1, g = 2, b = 3\<rparr>, \<lparr>r = 1, g = 2, b = 3\<rparr>)
   \<and> guess_best_block_element (replicate 64 \<lparr>r = 1, g = 2, b = 3\<rparr>)
        \<lparr>r = 9, g = 9, b = 9\<rparr> \<lparr>r = 8, g = 8, b = 8\<rparr>
      = Some ([CHR 0xE2, CHR 0x96, CHR 0x84], \<lparr>r = 1, g = 2, b = 3\<rparr>, \<lparr>r = 1, g = 2, b = 3\<rparr>)"
  using uniform_window_first_glyph
    [of "replicate 64 \<lparr>r = 1, g = 2, b = 3\<rparr>" "\<lparr>r = 1, g = 2, b = 3\<rparr>"
        "\<lparr>r = 9, g = 9, b = 9\<rparr>" "\<lparr>r = 8, g = 8, b = 8\<rparr>"]
  by (simp add: WINDOW_SZ_64)

theorem loss_is_sum_of_six_contributions_witness:
  "length (map (\<lambda>i. \<lparr>r = of_nat i, g = 7, b = of_nat (3 * i)\<rparr>) [0..<64]) = WINDOW_SZ
   \<and> (\<exists>loss mean_fg mean_bg.
        best_fg_bg LEFT_ONE_QUARTER (map (\<lambda>i. \<lparr>r = of_nat i, g = 7, b = of_nat (3 * i)\<rparr>) [0..<64])
          = Some (loss, mean_fg, mean_bg)
        \<and> uint loss
          = total_loss LEFT_ONE_QUARTER (map (\<lambda>i. \<lparr>r = of_nat i, g = 7, b = of_nat (3 * i)\<rparr>) [0..<64]))"
  using loss_is_sum_of_six_contributions
    [of "map (\<lambda>i. \<lparr>r = of_nat i, g = 7, b = of_nat (3 * i)\<rparr>) [0..<64]" LEFT_ONE_QUARTER]
  by (auto simp: WINDOW_SZ_64 total_loss_def)

theorem catalog_masks_not_degenerate_witness:
  "length (replicate 64 \<lparr>r = 1, g = 2, b = 3\<rparr>) = WINDOW_SZ
   \<and> bitmap (block_elements LEFT_ONE_EIGHTH) \<noteq> 0 \<and> bitmap (block_elements LEFT_ONE_EIGHTH) \<noteq> - 1
   \<and> 0 < unat (num_fg (window_sums LEFT_ONE_EIGHTH (replicate 64 \<lparr>r = 1, g = 2, b = 3\<rparr>)))
   \<and> 0 < unat (num_bg (window_sums LEFT_ONE_EIGHTH (replicate 64 \<lparr>r = 1, g = 2, b = 3\<rparr>)))
   \<and> best_fg_bg LEFT_ONE_EIGHTH (replicate 64 \<lparr>r = 1, g = 2, b = 3\<rparr>) \<noteq> None"
  using catalog_masks_not_degenerate [of "replicate 64 \<lparr>r = 1, g = 2, b = 3\<rparr>" LEFT_ONE_EIGHTH]
  by (simp add: WINDOW_SZ_64)

theorem guess_returns_catalog_entry_witness:
  "length (map (\<lambda>i. \<lparr>r = of_nat i, g = 7, b = of_nat (3 * i)\<rparr>) [0..<64]) = WINDOW_SZ
   \<and> (\<exists>e l fg bg. e \<in> set all_elems
        \<and> best_fg_bg e (map (\<lambda>i. \<lparr>r = of_nat i, g = 7, b = of_nat (3 * i)\<rparr>) [0..<64]) = Some (l, fg, bg)
        \<and> guess_best_block_element (map (\<lambda>i. \<lparr>r = of_nat i, g = 7, b = of_nat (3 * i)\<rparr>) [0..<64])
            \<lparr>r = 0, g = 0, b = 0\<rparr> \<lparr>r = 0, g = 0, b = 0\<rparr>
          = Some (utf8 (block_elements e), fg, bg))"
  using guess_returns_catalog_entry
    [of "map (\<lambda>i. \<lparr>r = of_nat i, g = 7, b = of_nat (3 * i)\<rparr>) [0..<64]"
        "\<lparr>r = 0, g = 0, b = 0\<rparr>" "\<lparr>r = 0, g = 0, b = 0\<rparr>"]
  by (simp add: WINDOW_SZ_64)

section \<open>The frame renderer\<close>

lemma concat_map_upt_Suc:
  "concat (map f [0..<Suc n]) = f 0 @ concat (map (\<lambda>k. f (Suc k)) [0..<n])"
proof -
  have "[0..<Suc n] = 0 # map Suc [0..<n]"
    by (simp add: upt_conv_Cons map_Suc_upt del: upt_Suc)
  then show ?thesis by (simp add: comp_def del: upt_Suc)
qed




lemma half_cols_cells:
  "nat (swidth - x) = n \<Longrightarrow>
   half_cols source term256 lut swidth x row_up row_down out =
     out @ concat (map (\<lambda>k. bg_seq term256 lut (get_rgb source (row_up + 3 * int k))
                            @ fg_seq term256 lut (get_rgb source (row_down + 3 * int k))
                            @ utf8 (block_elements LOWER_HALF)) [0..<n])"
proof (induction n arbitrary: x row_up row_down out)
  case 0
  then show ?case by (subst half_cols.simps) simp
next
  case (Suc n)
  then have lt: "x < swidth" and n: "nat (swidth - (x + 1)) = n" by simp_all
  have "half_cols source term256 lut swidth x row_up row_down out =
        half_cols source term256 lut swidth (x + 1) (row_up + 3) (row_down + 3)
          (out @ bg_seq term256 lut (get_rgb source row_up)
               @ fg_seq term256 lut (get_rgb source row_down)
               @ utf8 (block_elements LOWER_HALF))"
    using lt by (subst half_cols.simps) (simp add: Let_def bg_seq_def fg_seq_def get_rgb_def)
  also have "\<dots> = (out @ bg_seq term256 lut (get_rgb source row_up)
               @ fg_seq term256 lut (get_rgb source row_down)
               @ utf8 (block_elements LOWER_HALF))
      @ concat (map (\<lambda>k. bg_seq term256 lut (get_rgb source (row_up + 3 + 3 * int k))
                            @ fg_seq term256 lut (get_rgb source (row_down + 3 + 3 * int k))
                            @ utf8 (block_elements LOWER_HALF)) [0..<n])"
    by (rule Suc.IH [OF n])
  finally show ?case
    unfolding concat_map_upt_Suc by (simp add: algebra_simps)
qed

lemma half_rows_rows:
  "nat (sheight - int j) = n \<Longrightarrow>
   half_rows source source_stride term256 lut swidth sheight tx ty (2 * int j) out =
     out @ concat (map (\<lambda>k. row_bytes ty tx (nat swidth)
                               (half_cell source source_stride term256 lut) (j + k)) [0..<n])"
proof (induction n arbitrary: j out)
  case 0
  then show ?case by (subst half_rows.simps) simp
next
  case (Suc n)
  then have lt: "2 * int j < sheight * 2" and n: "nat (sheight - int (Suc j)) = n" by simp_all
  have d: "(2 * int j) sdiv 2 = int j" by (simp add: sdiv_nonneg)
  have row: "ESC_GOTOXY (ty + int j) tx
        @ concat (map (\<lambda>k. bg_seq term256 lut (get_rgb source (2 * int j * source_stride + 3 * int k))
                            @ fg_seq term256 lut
                                (get_rgb source ((2 * int j + 1) * source_stride + 3 * int k))
                            @ utf8 (block_elements LOWER_HALF))
                    [0..<nat swidth])
        @ ESC_CLEAR_COLORS
      = row_bytes ty tx (nat swidth) (half_cell source source_stride term256 lut) j"
    by (simp add: row_bytes_def half_cell_def [abs_def] source_pixel_def add.commute)
  have "half_rows source source_stride term256 lut swidth sheight tx ty (2 * int j) out =
        half_rows source source_stride term256 lut swidth sheight tx ty (2 * int j + 2)
          (out @ row_bytes ty tx (nat swidth) (half_cell source source_stride term256 lut) j)"
    using lt
    by (subst half_rows.simps)
       (simp add: Let_def d half_cols_cells [where n = "nat swidth"] row [symmetric])
  also have "2 * int j + 2 = 2 * int (Suc j)" by simp
  also have "half_rows source source_stride term256 lut swidth sheight tx ty (2 * int (Suc j))
          (out @ row_bytes ty tx (nat swidth) (half_cell source source_stride term256 lut) j)
     = (out @ row_bytes ty tx (nat swidth) (half_cell source source_stride term256 lut) j)
      @ concat (map (\<lambda>k. row_bytes ty tx (nat swidth)
                               (half_cell source source_stride term256 lut) (Suc j + k)) [0..<n])"
    by (rule Suc.IH [OF n])
  finally show ?case
    unfolding concat_map_upt_Suc by simp
qed

lemma write_half_blocks_frame:
  "write_half_blocks dwidth dheight swidth sheight source source_stride term256 lut =
     frame_newline_last ((dheight - sheight) sdiv 2) ((dwidth - swidth) sdiv 2)
       (nat sheight) (nat swidth) (half_cell source source_stride term256 lut)"
  using half_rows_rows [of sheight 0 "nat sheight"]
  by (simp add: write_half_blocks_def frame_newline_last_def Let_def)













lemma fmt_d_two_digits:
  "fmt_d 10 = ''10''" "fmt_d 20 = ''20''" "fmt_d 30 = ''30''" "fmt_d 40 = ''40''"
  "fmt_d 50 = ''50''" "fmt_d 60 = ''60''" "fmt_d 11 = ''11''" "fmt_d 12 = ''12''"
  "fmt_d 39 = ''39''"
  by (simp_all add: fmt_d_def dec_digits_lt100 digit_char_def)

text \<open>
  Claim C2.  Half-block strategy, true colour, one column and two source rows holding the
  pixels (B=10, G=20, R=30) above (B=40, G=50, R=60), with the table of \<^verbatim>\<open>preinit\<close>: after
  the cursor-positioning sequence the output is the background escape
  \<^verbatim>\<open>ESC[48;2;30;20;10m\<close> of the upper pixel, the foreground escape
  \<^verbatim>\<open>ESC[38;2;60;50;40m\<close> of the lower pixel, the bytes E2 96 84 of U+2584 and the reset
  \<^verbatim>\<open>ESC[0m\<close>; the newline that ends the frame follows.
\<close>

theorem half_block_two_pixels:
  assumes "length lut0 = 256"
    and "source 0 = 10" and "source 1 = 20" and "source 2 = 30"
    and "source source_stride = 40" and "source (source_stride + 1) = 50"
    and "source (source_stride + 2) = 60"
  shows "write_half_blocks dwidth dheight 1 1 source source_stride False (preinit_lut stack lut0)
         = ESC_GOTOXY ((dheight - 1) sdiv 2) ((dwidth - 1) sdiv 2)
           @ (ESC # ''[48;2;30;20;10m'') @ (ESC # ''[38;2;60;50;40m'')
           @ [CHR 0xE2, CHR 0x96, CHR 0x84] @ (ESC # ''[0m'') @ newline"
proof -
  have up: "source_pixel source source_stride 0 0 = \<lparr>r = 30, g = 20, b = 10\<rparr>"
    using assms by (simp add: source_pixel_def get_rgb_def)
  have down: "source_pixel source source_stride 1 0 = \<lparr>r = 60, g = 50, b = 40\<rparr>"
    using assms by (simp add: source_pixel_def get_rgb_def)
  have cell: "half_cell source source_stride False (preinit_lut stack lut0) 0 0
      = (ESC # ''[48;2;30;20;10m'') @ (ESC # ''[38;2;60;50;40m'') @ [CHR 0xE2, CHR 0x96, CHR 0x84]"
    unfolding half_cell_def bg_seq_def fg_seq_def
    using up down
    by (simp add: print_seq3_preinit [OF assms(1)] printf_seq3_def fmt_d_two_digits
        ESC_COLOR_BG_def ESC_COLOR_FG_def)
  show ?thesis
    unfolding write_half_blocks_frame
    by (simp add: frame_newline_last_def row_bytes_def cell ESC_CLEAR_COLORS_def)
qed

theorem half_block_two_pixels_witness:
  "write_half_blocks 80 25 1 1 two_pixels 3 False (preinit_lut (\<lambda>i. replicate 8 NUL) zeroed_lut)
     = (ESC # ''[12;39f'') @ (ESC # ''[48;2;30;20;10m'') @ (ESC # ''[38;2;60;50;40m'')
       @ [CHR 0xE2, CHR 0x96, CHR 0x84] @ (ESC # ''[0m'') @ newline"
  using half_block_two_pixels [of zeroed_lut two_pixels 3 80 25 "\<lambda>i. replicate 8 NUL"]
  by (simp add: zeroed_lut_def two_pixels_def ESC_GOTOXY_def fmt_d_two_digits
      signed_divide_int_def)





end
